theory Spec2Isabelle
  imports Complex_Main "HOL-Library.AList" "HOL-Library.Char_ord" "HOL-Library.List_Lexorder"
    "HOL-Library.Multiset"
begin

section \<open>Data model\<close>

text \<open>
  The program passes listings around as Python dictionaries. A dictionary with a fixed
  set of possible keys is a record whose optional keys are \<open>option\<close> fields:
  \<open>None\<close> stands for an absent key, as \<^verbatim>\<open>prop.get(key)\<close> reads it.
  Python strings are byte lists in UTF-8, so the three building names are written as
  their bytes. Python floats that are only stored and compared (areas, unit prices) are
  the real numbers they denote: an area is read from a run of digits and dots, so it is
  a number, and comparing two floats is exact.

  \<^verbatim>\<open>kanri_no\<close> is set by both branches of \<^verbatim>\<open>scrape_property\<close>; every reader tests it
  with \<^verbatim>\<open>if not kanri_no\<close>, which treats an absent key and the empty string alike, so the
  field is a plain string and \<open>[]\<close> covers both.
\<close>

record property =
  url :: string
  kanri_no :: string
  error :: "string option"
  price :: "int option"
  madori :: "string option"
  area :: "real option"
  building :: "string option"
  floor_no :: "string option"
  built :: "string option"
  direction :: "string option"
  reform :: "string option"
  favorite_count :: "int option"
  staff :: "string option"
  price_per_sqm :: "real option"
  price_per_tsubo :: "real option"

record history_point =
  date :: string
  hp_price :: "int option"
  hp_price_per_sqm :: "real option"
  hp_price_per_tsubo :: "real option"
  hp_area :: "real option"

record entry =
  history :: "history_point list"
  first_seen :: string
  initial_price :: "int option"
  current_price :: "int option"
  current_area :: "real option"
  max_price :: "int option"
  min_price :: "int option"
  total_change :: int
  entry_building :: "string option"
  entry_floor :: "string option"
  entry_madori :: "string option"
  entry_staff :: "string option"

text \<open>
  \<^verbatim>\<open>tracker_data\<close>, the dict that \<^verbatim>\<open>save_current_data\<close> builds and writes to
  \<^verbatim>\<open>price_tracker.json\<close>: a Python dict keeps insertion order, hence an association list
  updated with \<open>AList.update\<close>.
\<close>

type_synonym ledger = "(string \<times> entry) list"

text \<open>
  What \<^verbatim>\<open>json.load\<close> can give back from the ledger file, as far as the tracker tells
  values apart. A JSON object is a dict, with each key once; a value of it that is not
  itself an object (\<^verbatim>\<open>null\<close>, a number, a string, an array) is \<open>None\<close>, since all the
  tracker does with a value is to call \<^verbatim>\<open>.get\<close> on it. An object value is taken to hold
  fields of the types that \<^verbatim>\<open>save_current_data\<close> writes. A document that is not an
  object is an array (of which only the strings among its elements matter to
  \<^verbatim>\<open>kanri_no in previous\<close>), a string, or a number, \<^verbatim>\<open>true\<close>, \<^verbatim>\<open>false\<close> or \<^verbatim>\<open>null\<close>.
\<close>

datatype json_other = JList "string list" | JString string | JScalar

datatype loaded = Dict "(string \<times> entry option) list" | NonDict json_other

record snapshot =
  snap_date :: string
  snap_properties :: "property list"

text \<open>
  What \<^verbatim>\<open>load_previous_data\<close> can find at \<^verbatim>\<open>self.data_file\<close>: no file, a file on which
  \<^verbatim>\<open>open\<close> or \<^verbatim>\<open>json.load\<close> raises (with the exception's text), or a file that parses.
\<close>

datatype ledger_file = Missing | Unreadable string | Parsed loaded

record world =
  data_file :: ledger_file
  snapshots :: "(string \<times> snapshot) list"
  stdout :: "string list"

datatype py_error = TypeError | AttributeError | KeyError

record price_change =
  pc_kanri_no :: string
  pc_building :: "string option"
  pc_floor :: "string option"
  pc_madori :: "string option"
  pc_area :: "real option"
  pc_before :: int
  pc_after :: int
  change_amount :: int
  change_rate :: real

record new_property =
  np_kanri_no :: string
  np_price :: "int option"
  np_area :: "real option"
  np_building :: "string option"
  np_floor :: "string option"
  np_madori :: "string option"
  np_price_per_tsubo :: "real option"

record ended_property =
  ep_kanri_no :: string
  ep_building :: "string option"
  ep_floor :: "string option"
  ep_madori :: "string option"
  final_price :: "int option"

record staff_change =
  sc_kanri_no :: string
  sc_building :: "string option"
  sc_floor :: "string option"
  sc_before :: string
  sc_after :: string

text \<open>Nothing in the source ever builds an element of \<^verbatim>\<open>reform_changes\<close>.\<close>

type_synonym reform_change = unit

record changes =
  price_changes :: "price_change list"
  new_properties :: "new_property list"
  ended_properties :: "ended_property list"
  reform_changes :: "reform_change list"
  staff_changes :: "staff_change list"

section \<open>price\_tracker.py\<close>

text \<open>\<^verbatim>\<open>pat in s\<close> on strings.\<close>

fun contains :: "string \<Rightarrow> string \<Rightarrow> bool" where
  "contains pat [] = (pat = [])"
| "contains pat (c # cs) = (take (length pat) (c # cs) = pat \<or> contains pat cs)"

text \<open>Python truthiness of \<^verbatim>\<open>x.get(key)\<close>: \<^verbatim>\<open>None\<close>, \<^verbatim>\<open>0\<close> and \<^verbatim>\<open>''\<close> are false.\<close>

fun truthy_int :: "int option \<Rightarrow> bool" where
  "truthy_int None = False"
| "truthy_int (Some n) = (n \<noteq> 0)"

fun truthy_str :: "string option \<Rightarrow> bool" where
  "truthy_str None = False"
| "truthy_str (Some s) = (s \<noteq> [])"

text \<open>The message printed when the ledger cannot be read, up to the exception's text.\<close>

definition load_failed_prefix :: string where
  "load_failed_prefix =
     [CHR 0xE5, CHR 0x89, CHR 0x8D, CHR 0xE5, CHR 0x9B, CHR 0x9E, CHR 0xE3, CHR 0x83,
      CHR 0x87, CHR 0xE3, CHR 0x83, CHR 0xBC, CHR 0xE3, CHR 0x82, CHR 0xBF, CHR 0xE3,
      CHR 0x81, CHR 0xAE, CHR 0xE8, CHR 0xAA, CHR 0xAD, CHR 0xE3, CHR 0x81, CHR 0xBF,
      CHR 0xE8, CHR 0xBE, CHR 0xBC, CHR 0xE3, CHR 0x81, CHR 0xBF, CHR 0xE3, CHR 0x81,
      CHR 0xAB, CHR 0xE5, CHR 0xA4, CHR 0xB1, CHR 0xE6, CHR 0x95, CHR 0x97, CHR 0x3A,
      CHR 0x20]"

text \<open>
  \<^verbatim>\<open>load_previous_data\<close> returns whatever \<^verbatim>\<open>json.load\<close> gives, unchecked; only a missing
  file and an exception of \<^verbatim>\<open>open\<close> or \<^verbatim>\<open>json.load\<close> give the empty dict.
\<close>

fun load_previous_data :: "world \<Rightarrow> loaded \<times> world" where
  "load_previous_data w =
     (case data_file w of
        Missing \<Rightarrow> (Dict [], w)
      | Unreadable e \<Rightarrow> (Dict [], w\<lparr>stdout := stdout w @ [load_failed_prefix @ e]\<rparr>)
      | Parsed v \<Rightarrow> (v, w))"

text \<open>What \<^verbatim>\<open>json.load\<close> reads back from the file that \<^verbatim>\<open>json.dump(tracker_data, f)\<close> wrote.\<close>

definition dumped :: "ledger \<Rightarrow> loaded" where
  "dumped tracker_data = Dict (map (\<lambda>(k, e). (k, Some e)) tracker_data)"

text \<open>\<^verbatim>\<open>max(prices) if prices else None\<close> and its twin for \<^verbatim>\<open>min\<close>.\<close>

fun py_max :: "int list \<Rightarrow> int option" where
  "py_max [] = None"
| "py_max (x # xs) = Some (fold max xs x)"

fun py_min :: "int list \<Rightarrow> int option" where
  "py_min [] = None"
| "py_min (x # xs) = Some (fold min xs x)"

text \<open>
  \<^verbatim>\<open>prop.get('price', 0) - history[0].get('price', 0) if history else 0\<close>.
  Every history point is written with the key \<^verbatim>\<open>price\<close>, whose value is \<^verbatim>\<open>None\<close> when the
  listing had no price; the default of \<^verbatim>\<open>.get\<close> then does not apply and the subtraction
  raises \<^verbatim>\<open>TypeError\<close>.
\<close>

fun total_change_of :: "property \<Rightarrow> history_point list \<Rightarrow> py_error + int" where
  "total_change_of prop [] = Inr 0"
| "total_change_of prop (h # hs) =
     (case hp_price h of
        None \<Rightarrow> Inl TypeError
      | Some p0 \<Rightarrow> Inr ((case price prop of None \<Rightarrow> 0 | Some p \<Rightarrow> p) - p0))"

text \<open>
  Lines 52 to 57: \<^verbatim>\<open>previous[kanri_no].get('history', [])\<close> if \<^verbatim>\<open>kanri_no in previous\<close>,
  else the empty list. On a dict, a value that is not a dict has no \<^verbatim>\<open>.get\<close>. On an array
  or a string \<^verbatim>\<open>in\<close> is membership or the substring test, and indexing with the id
  raises; on any other value \<^verbatim>\<open>in\<close> itself raises.
\<close>

fun previous_history :: "loaded \<Rightarrow> string \<Rightarrow> py_error + history_point list" where
  "previous_history (Dict d) k =
     (case map_of d k of
        None \<Rightarrow> Inr []
      | Some None \<Rightarrow> Inl AttributeError
      | Some (Some prev_data) \<Rightarrow> Inr (history prev_data))"
| "previous_history (NonDict (JList xs)) k = (if k \<in> set xs then Inl TypeError else Inr [])"
| "previous_history (NonDict (JString s)) k = (if contains k s then Inl TypeError else Inr [])"
| "previous_history (NonDict JScalar) k = Inl TypeError"

text \<open>The history of a listing after today's observation (lines 59 to 67).\<close>

definition today_point :: "string \<Rightarrow> property \<Rightarrow> history_point" where
  "today_point today prop =
     \<lparr>date = today, hp_price = price prop, hp_price_per_sqm = price_per_sqm prop,
      hp_price_per_tsubo = price_per_tsubo prop, hp_area = area prop\<rparr>"

definition history_today :: "history_point list \<Rightarrow> string \<Rightarrow> property \<Rightarrow> history_point list" where
  "history_today history0 today prop =
     (if history0 = [] \<or> date (last history0) \<noteq> today
      then history0 @ [today_point today prop]
      else history0)"

text \<open>The dictionary stored under \<^verbatim>\<open>tracker_data[kanri_no]\<close> (lines 69 to 85).\<close>

definition tracker_entry :: "string \<Rightarrow> property \<Rightarrow> history_point list \<Rightarrow> py_error + entry" where
  "tracker_entry today prop hist =
     (let prices = map (\<lambda>h. the (hp_price h)) (filter (\<lambda>h. truthy_int (hp_price h)) hist)
      in case total_change_of prop hist of
           Inl e \<Rightarrow> Inl e
         | Inr tc \<Rightarrow> Inr
            \<lparr>history = hist,
             first_seen = (case hist of [] \<Rightarrow> today | h # _ \<Rightarrow> date h),
             initial_price = (case hist of [] \<Rightarrow> price prop | h # _ \<Rightarrow> hp_price h),
             current_price = price prop,
             current_area = area prop,
             max_price = py_max prices,
             min_price = py_min prices,
             total_change = tc,
             entry_building = building prop,
             entry_floor = floor_no prop,
             entry_madori = madori prop,
             entry_staff = staff prop\<rparr>)"

text \<open>
  The loop of \<^verbatim>\<open>save_current_data\<close>. The ledger file is read again for every listing and
  written only after the loop, so every iteration sees the same file; a failed read
  prints its warning on each iteration.
\<close>

fun save_loop :: "string \<Rightarrow> property list \<Rightarrow> ledger \<Rightarrow> world \<Rightarrow> py_error + (ledger \<times> world)" where
  "save_loop today [] tracker_data w = Inr (tracker_data, w)"
| "save_loop today (prop # props) tracker_data w =
     (if error prop \<noteq> None then save_loop today props tracker_data w
      else if kanri_no prop = [] then save_loop today props tracker_data w
      else case load_previous_data w of (previous, w') \<Rightarrow>
        (case previous_history previous (kanri_no prop) of
           Inl e \<Rightarrow> Inl e
         | Inr history0 \<Rightarrow>
            (case tracker_entry today prop (history_today history0 today prop) of
               Inl e \<Rightarrow> Inl e
             | Inr ent \<Rightarrow>
                 save_loop today props (AList.update (kanri_no prop) ent tracker_data) w')))"

text \<open>
  \<^verbatim>\<open>save_current_data\<close>, with \<^verbatim>\<open>datetime.now().strftime('%Y-%m-%d')\<close> as the parameter
  \<open>today\<close>. An exception in the loop leaves both files as they were. The two writes are
  taken to succeed.
\<close>

definition save_current_data :: "property list \<Rightarrow> string \<Rightarrow> world \<Rightarrow> py_error + world" where
  "save_current_data properties today w =
     (case save_loop today properties [] w of
        Inl e \<Rightarrow> Inl e
      | Inr (tracker_data, w') \<Rightarrow> Inr
          (w'\<lparr>data_file := Parsed (dumped tracker_data),
              snapshots := AList.update today
                 \<lparr>snap_date = today,
                  snap_properties = filter (\<lambda>p. error p = None) properties\<rparr>
                 (snapshots w')\<rparr>))"

text \<open>
  The first loop of \<^verbatim>\<open>detect_changes\<close> (lines 127 to 182), on a ledger that is a dict.
  \<^verbatim>\<open>prev_data.get\<close> raises when the value stored under the id is not a dict.
\<close>

fun detect_loop ::
  "(string \<times> entry option) list \<Rightarrow> property list \<Rightarrow> changes \<Rightarrow> py_error + changes" where
  "detect_loop previous [] ch = Inr ch"
| "detect_loop previous (prop # props) ch =
     (if error prop \<noteq> None then detect_loop previous props ch
      else if kanri_no prop = [] then detect_loop previous props ch
      else case map_of previous (kanri_no prop) of
        Some None \<Rightarrow> Inl AttributeError
      | Some (Some prev_data) \<Rightarrow>
          (let ch1 =
             (if truthy_int (price prop) \<and> truthy_int (current_price prev_data)
                 \<and> price prop \<noteq> current_price prev_data
              then (let current_price' = the (price prop);
                        previous_price = the (current_price prev_data);
                        amount = current_price' - previous_price
                    in ch\<lparr>price_changes := price_changes ch @
                         [\<lparr>pc_kanri_no = kanri_no prop, pc_building = building prop,
                           pc_floor = floor_no prop, pc_madori = madori prop,
                           pc_area = area prop, pc_before = previous_price,
                           pc_after = current_price', change_amount = amount,
                           change_rate = (real_of_int amount / real_of_int previous_price) * 100\<rparr>]\<rparr>)
              else ch);
               ch2 =
             (if truthy_str (staff prop) \<and> truthy_str (entry_staff prev_data)
                 \<and> staff prop \<noteq> entry_staff prev_data
              then ch1\<lparr>staff_changes := staff_changes ch1 @
                     [\<lparr>sc_kanri_no = kanri_no prop, sc_building = building prop,
                       sc_floor = floor_no prop, sc_before = the (entry_staff prev_data),
                       sc_after = the (staff prop)\<rparr>]\<rparr>
              else ch1)
           in detect_loop previous props ch2)
      | None \<Rightarrow>
          detect_loop previous props
            (ch\<lparr>new_properties := new_properties ch @
               [\<lparr>np_kanri_no = kanri_no prop, np_price = price prop, np_area = area prop,
                 np_building = building prop, np_floor = floor_no prop,
                 np_madori = madori prop, np_price_per_tsubo = price_per_tsubo prop\<rparr>]\<rparr>))"

definition current_ids :: "property list \<Rightarrow> string set" where
  "current_ids current_properties =
     set (map kanri_no (filter (\<lambda>p. error p = None \<and> kanri_no p \<noteq> []) current_properties))"

definition previous_ids :: "(string \<times> entry option) list \<Rightarrow> string set" where
  "previous_ids previous = set (map fst previous)"

text \<open>
  The second loop (lines 185 to 193) runs over the Python set
  \<^verbatim>\<open>previous_ids - current_ids\<close>. The order in which a set of strings is iterated is not
  fixed by the language and changes with the hash seed of the process. The parameter
  \<open>set_order\<close> stands for it: each id of the set is visited once, by increasing
  \<open>set_order\<close>. Every order of the ids is of this form (\<open>any_order_is_a_set_order\<close>).
\<close>

definition set_iteration :: "(string \<Rightarrow> nat) \<Rightarrow> string list \<Rightarrow> string list" where
  "set_iteration set_order ids = sort_key set_order (remdups ids)"

fun ended_loop ::
  "(string \<times> entry option) list \<Rightarrow> string list \<Rightarrow> ended_property list
     \<Rightarrow> py_error + ended_property list" where
  "ended_loop previous [] ended = Inr ended"
| "ended_loop previous (k # ks) ended =
     (case map_of previous k of
        None \<Rightarrow> Inl KeyError
      | Some None \<Rightarrow> Inl AttributeError
      | Some (Some prev_data) \<Rightarrow>
          ended_loop previous ks
            (ended @ [\<lparr>ep_kanri_no = k, ep_building = entry_building prev_data,
                       ep_floor = entry_floor prev_data, ep_madori = entry_madori prev_data,
                       final_price = current_price prev_data\<rparr>]))"

definition empty_changes :: changes where
  "empty_changes =
     \<lparr>price_changes = [], new_properties = [], ended_properties = [],
      reform_changes = [], staff_changes = []\<rparr>"

text \<open>
  \<^verbatim>\<open>detect_changes(self, current_properties)\<close>: it loads the ledger file itself. Line 116,
  \<^verbatim>\<open>previous.keys()\<close>, raises on a loaded value that is not a dict.
\<close>

definition detect_changes ::
  "(string \<Rightarrow> nat) \<Rightarrow> property list \<Rightarrow> world \<Rightarrow> py_error + changes \<times> world" where
  "detect_changes set_order current_properties w =
     (case load_previous_data w of
        (previous, w') \<Rightarrow>
          (case previous of
             NonDict v \<Rightarrow> Inl AttributeError
           | Dict d \<Rightarrow>
               (case detect_loop d current_properties empty_changes of
                  Inl e \<Rightarrow> Inl e
                | Inr ch \<Rightarrow>
                    (case ended_loop d
                            (set_iteration set_order
                               (filter (\<lambda>k. k \<notin> current_ids current_properties) (map fst d)))
                            (ended_properties ch) of
                       Inl e \<Rightarrow> Inl e
                     | Inr ended \<Rightarrow> Inr (ch\<lparr>ended_properties := ended\<rparr>, w')))))"

text \<open>\<^verbatim>\<open>any(changes.values())\<close>, as \<^verbatim>\<open>main\<close> and the report compute it.\<close>

definition has_changes :: "changes \<Rightarrow> bool" where
  "has_changes ch =
     (price_changes ch \<noteq> [] \<or> new_properties ch \<noteq> [] \<or> ended_properties ch \<noteq> []
      \<or> reform_changes ch \<noteq> [] \<or> staff_changes ch \<noteq> [])"

text \<open>
  \<^verbatim>\<open>generate_change_report\<close>, of which only the failure matters here; the Markdown text is
  left out. The format specifications \<^verbatim>\<open>:,\<close>, \<^verbatim>\<open>:.2f\<close> and \<^verbatim>\<open>:.1f\<close> raise \<^verbatim>\<open>TypeError\<close> on
  \<^verbatim>\<open>None\<close>: in the section of new listings for the price, the area and the price per
  tsubo, in the section of ended listings for the final price. The fields of a price
  change that are formatted so are numbers, and all other fields are printed as they are.
\<close>

definition generate_change_report :: "changes \<Rightarrow> py_error + unit" where
  "generate_change_report ch =
     (if \<not> has_changes ch then Inr ()
      else if list_ex (\<lambda>p. np_price p = None \<or> np_area p = None \<or> np_price_per_tsubo p = None)
                (new_properties ch)
      then Inl TypeError
      else if list_ex (\<lambda>p. final_price p = None) (ended_properties ch)
      then Inl TypeError
      else Inr ())"

section \<open>scraper.py\<close>

definition MIN_AREA :: real where
  "MIN_AREA = 0"

definition MAX_AREA :: real where
  "MAX_AREA = 999"

text \<open>The three building names of the complex, as UTF-8 bytes.\<close>

definition tag_east :: string where
  "tag_east =
     [CHR 0xE3, CHR 0x82, CHR 0xA4, CHR 0xE3, CHR 0x83, CHR 0xBC, CHR 0xE3, CHR 0x82,
      CHR 0xB9, CHR 0xE3, CHR 0x83, CHR 0x88]"

definition tag_west :: string where
  "tag_west =
     [CHR 0xE3, CHR 0x82, CHR 0xA6, CHR 0xE3, CHR 0x82, CHR 0xA8, CHR 0xE3, CHR 0x82,
      CHR 0xB9, CHR 0xE3, CHR 0x83, CHR 0x88]"

definition tag_central :: string where
  "tag_central =
     [CHR 0xE3, CHR 0x82, CHR 0xBB, CHR 0xE3, CHR 0x83, CHR 0xB3, CHR 0xE3, CHR 0x83,
      CHR 0x88, CHR 0xE3, CHR 0x83, CHR 0xA9, CHR 0xE3, CHR 0x83, CHR 0xAB]"

definition site :: string where
  "site = ''https://www.livable.co.jp''"

text \<open>
  \<^verbatim>\<open>re.search(r'/mansion/(C[A-Z0-9]+)/?', url)\<close>: the leftmost place where
  \<^verbatim>\<open>/mansion/C\<close> is followed by at least one capital letter or digit; the group is
  \<^verbatim>\<open>C\<close> and the longest such run.
\<close>

definition is_id_char :: "char \<Rightarrow> bool" where
  "is_id_char c =
     (let n = (of_char c :: nat) in (65 \<le> n \<and> n \<le> 90) \<or> (48 \<le> n \<and> n \<le> 57))"

definition match_here :: "string \<Rightarrow> string option" where
  "match_here s =
     (if take 10 s = ''/mansion/C''
      then (let run = takeWhile is_id_char (drop 10 s)
            in if run = [] then None else Some (CHR ''C'' # run))
      else None)"

fun extract_property_id :: "string \<Rightarrow> string option" where
  "extract_property_id [] = None"
| "extract_property_id (c # cs) =
     (case match_here (c # cs) of
        Some i \<Rightarrow> Some i
      | None \<Rightarrow> extract_property_id cs)"

text \<open>
  \<^verbatim>\<open>if not url.startswith('http'): url = f"https://www.livable.co.jp{url}"\<close>, which both
  \<^verbatim>\<open>discover_related_properties\<close> and \<^verbatim>\<open>auto_discover_properties\<close> apply first.
\<close>

definition absolute_url :: "string \<Rightarrow> string" where
  "absolute_url u = (if take 4 u = ''http'' then u else site @ u)"

text \<open>
  What the \<^verbatim>\<open>try\<close> block of \<^verbatim>\<open>discover_related_properties\<close> reads from the network. A
  request either raises (\<^verbatim>\<open>requests.get\<close>, \<^verbatim>\<open>raise_for_status\<close>, the parser), or gives a
  page, of which the block uses two things: for each matching heading that has a next
  element, the \<^verbatim>\<open>href\<close>s of that element's anchors that match
  \<^verbatim>\<open>/mansion/C[A-Z0-9]+\<close>, and the matching \<^verbatim>\<open>href\<close>s of all anchors of the page.
\<close>

record page =
  heading_links :: "string list list"
  anchor_links :: "string list"

type_synonym web = "string \<Rightarrow> string + page"

definition section_href :: "string \<Rightarrow> string list" where
  "section_href href =
     (if href \<noteq> [] \<and> contains ''/mansion/C'' href
      then [if take 1 href = ''/'' then site @ href else href]
      else [])"

definition fallback_href :: "string \<Rightarrow> string \<Rightarrow> string list" where
  "fallback_href property_url href =
     (if href = [] then []
      else if list_ex (\<lambda>x. contains x href)
                [''mailto:'', ''javascript:'', ''line.me'', ''twitter.com'', ''facebook.com'']
      then []
      else (let href' = (if take 1 href = ''/'' then site @ href else href)
            in if href' \<noteq> property_url then [href'] else []))"

text \<open>
  The body of the \<^verbatim>\<open>try\<close> block once the page is there. \<^verbatim>\<open>list(set(related_links))\<close>
  leaves the order open; the model keeps the order of first occurrence.
\<close>

definition related_links :: "string \<Rightarrow> page \<Rightarrow> string list" where
  "related_links property_url pg =
     (let related = concat (map (\<lambda>links. concat (map section_href links)) (heading_links pg));
          related' = (if related = []
                      then concat (map (fallback_href property_url) (anchor_links pg))
                      else related)
      in remdups related')"

definition discover_related_properties ::
  "web \<Rightarrow> string \<Rightarrow> string set \<Rightarrow> string list \<times> string set" where
  "discover_related_properties get property_url0 visited =
     (let property_url = absolute_url property_url0
      in if extract_property_id property_url = None \<or> property_url \<in> visited
         then ([], visited)
         else (case get property_url of
                 Inl e \<Rightarrow> []
               | Inr pg \<Rightarrow> related_links property_url pg,
               insert property_url visited))"

text \<open>
  One turn of the \<^verbatim>\<open>while queue\<close> loop of \<^verbatim>\<open>auto_discover_properties\<close>, on the
  triple of \<^verbatim>\<open>queue\<close>, \<^verbatim>\<open>visited\<close> and \<^verbatim>\<open>discovered\<close>. The pause between requests has no
  effect on the result and is left out.
\<close>

definition discover_step ::
  "web \<Rightarrow> string list \<times> string set \<times> string set \<Rightarrow> string list \<times> string set \<times> string set" where
  "discover_step get st =
     (case st of (queue, visited, discovered) \<Rightarrow>
        (case queue of
           [] \<Rightarrow> st
         | current_url0 # queue' \<Rightarrow>
             (let current_url = absolute_url current_url0
              in if extract_property_id current_url = None \<or> current_url \<in> discovered
                 then (queue', visited, discovered)
                 else (let discovered' = insert current_url discovered
                       in case discover_related_properties get current_url visited of
                            (related, visited') \<Rightarrow>
                              (queue' @ filter (\<lambda>u. u \<notin> discovered') related,
                               visited', discovered')))))"

text \<open>The loop may run forever on an endless chain of pages: its result is an option.\<close>

partial_function (option) discover_loop ::
  "web \<Rightarrow> string list \<times> string set \<times> string set \<Rightarrow> string set option" where
  "discover_loop get st =
     (if fst st = [] then Some (snd (snd st)) else discover_loop get (discover_step get st))"

declare discover_loop.simps [code]

definition auto_discover_properties :: "web \<Rightarrow> string list \<Rightarrow> string list option" where
  "auto_discover_properties get seed_urls =
     map_option sorted_list_of_set (discover_loop get (seed_urls, {}, {}))"

text \<open>\<^verbatim>\<open>url.rstrip('/').split('/')[-1]\<close>\<close>

definition kanri_no_of_url :: "string \<Rightarrow> string" where
  "kanri_no_of_url u =
     rev (takeWhile (\<lambda>c. c \<noteq> CHR ''/'') (dropWhile (\<lambda>c. c = CHR ''/'') (rev u)))"

text \<open>
  \<^verbatim>\<open>scrape_property\<close>. The field extraction of its \<^verbatim>\<open>try\<close> block is the parameter
  \<open>body\<close>: the dictionary the block returns, or the text of the exception it raises.
  The \<^verbatim>\<open>except\<close> branch is the code's own.
\<close>

definition scrape_property :: "(string \<Rightarrow> string + property) \<Rightarrow> string \<Rightarrow> property" where
  "scrape_property body u =
     (case body u of
        Inr property_data \<Rightarrow> property_data
      | Inl e \<Rightarrow>
          \<lparr>url = u, kanri_no = kanri_no_of_url u, error = Some e, price = None,
           madori = None, area = None, building = None, floor_no = None, built = None,
           direction = None, reform = None, favorite_count = None, staff = None,
           price_per_sqm = None, price_per_tsubo = None\<rparr>)"

text \<open>The filtering loop of \<^verbatim>\<open>main\<close> in automatic mode (lines 425 to 453).\<close>

fun filter_loop ::
  "(string \<Rightarrow> string + property) \<Rightarrow> string list \<Rightarrow> property list \<Rightarrow> property list" where
  "filter_loop body [] filtered_properties = filtered_properties"
| "filter_loop body (u # urls) filtered_properties =
     (let property_data = scrape_property body u
      in case area property_data of
           Some a \<Rightarrow>
             (let b = (case building property_data of None \<Rightarrow> [] | Some t \<Rightarrow> t)
              in if MIN_AREA \<le> a \<and> a < MAX_AREA
                 then if b \<in> set [tag_east, tag_west, tag_central]
                      then filter_loop body urls (filtered_properties @ [property_data])
                      else filter_loop body urls filtered_properties
                 else filter_loop body urls filtered_properties)
         | None \<Rightarrow> filter_loop body urls filtered_properties)"

text \<open>
  What \<^verbatim>\<open>main\<close> does with the listings once it has them (lines 481 to 527): change
  detection, the change report when there are changes, the commit, and the call of
  \<^verbatim>\<open>generate_html\<close> with \<^verbatim>\<open>total_discovered\<close>. An exception of any step ends the run
  there. The result, when the run comes to \<^verbatim>\<open>generate_html\<close>, holds the listings that
  were handed to the tracker, the change set, the total handed to \<^verbatim>\<open>generate_html\<close> and
  the files. \<^verbatim>\<open>generate_comparison_table\<close> guards every formatted field with
  \<^verbatim>\<open>in prop\<close> and does not raise; printing and the writing of the reports are left out.
\<close>

record run =
  run_properties :: "property list"
  run_changes :: changes
  total_discovered :: nat
  run_world :: world

definition main_tail ::
  "(string \<Rightarrow> nat) \<Rightarrow> property list \<Rightarrow> nat \<Rightarrow> string \<Rightarrow> world \<Rightarrow> py_error + run" where
  "main_tail set_order properties n_discovered today w =
     (case detect_changes set_order properties w of
        Inl e \<Rightarrow> Inl e
      | Inr (ch, w1) \<Rightarrow>
          (case (if has_changes ch then generate_change_report ch else Inr ()) of
             Inl e \<Rightarrow> Inl e
           | Inr u \<Rightarrow>
               (case save_current_data properties today w1 of
                  Inl e \<Rightarrow> Inl e
                | Inr w2 \<Rightarrow> Inr
                    \<lparr>run_properties = properties, run_changes = ch,
                     total_discovered = n_discovered, run_world = w2\<rparr>)))"

text \<open>
  \<^verbatim>\<open>main\<close> in automatic mode (\<^verbatim>\<open>AUTO_DISCOVER\<close> is \<^verbatim>\<open>True\<close> in the source): the filtered
  listings go on, and the total is \<^verbatim>\<open>len(all_urls)\<close>.
\<close>

definition main_auto ::
  "(string \<Rightarrow> nat) \<Rightarrow> (string \<Rightarrow> string + property) \<Rightarrow> string list \<Rightarrow> string \<Rightarrow> world
     \<Rightarrow> py_error + run" where
  "main_auto set_order body all_urls today w =
     main_tail set_order (filter_loop body all_urls []) (length all_urls) today w"

section \<open>Auxiliary definitions\<close>

text \<open>
  The two guards at the head of both loops of the tracker: a listing is looked at when it
  has no \<^verbatim>\<open>error\<close> key and a non-empty \<^verbatim>\<open>kanri_no\<close>.
\<close>

definition tracked :: "property \<Rightarrow> bool" where
  "tracked p = (error p = None \<and> kanri_no p \<noteq> [])"

text \<open>The dictionary appended to \<^verbatim>\<open>new_properties\<close> for a listing.\<close>

definition new_entry :: "property \<Rightarrow> new_property" where
  "new_entry p =
     \<lparr>np_kanri_no = kanri_no p, np_price = price p, np_area = area p,
      np_building = building p, np_floor = floor_no p,
      np_madori = madori p, np_price_per_tsubo = price_per_tsubo p\<rparr>"

text \<open>
  The dictionary appended to \<^verbatim>\<open>price_changes\<close> for a listing and its ledger entry. Python
  computes the rate in double precision; the model keeps the exact quotient.
\<close>

definition price_entry :: "property \<Rightarrow> entry \<Rightarrow> price_change" where
  "price_entry p e =
     \<lparr>pc_kanri_no = kanri_no p, pc_building = building p, pc_floor = floor_no p,
      pc_madori = madori p, pc_area = area p, pc_before = the (current_price e),
      pc_after = the (price p),
      change_amount = the (price p) - the (current_price e),
      change_rate =
        (real_of_int (the (price p) - the (current_price e))
           / real_of_int (the (current_price e))) * 100\<rparr>"

text \<open>What one listing adds to \<^verbatim>\<open>price_changes\<close> and to \<^verbatim>\<open>staff_changes\<close>.\<close>

definition price_emitted :: "(string \<times> entry option) list \<Rightarrow> property \<Rightarrow> price_change list" where
  "price_emitted previous p =
     (case map_of previous (kanri_no p) of
        Some (Some e) \<Rightarrow>
          if tracked p \<and> truthy_int (price p) \<and> truthy_int (current_price e)
             \<and> price p \<noteq> current_price e
          then [price_entry p e] else []
      | _ \<Rightarrow> [])"

definition staff_emitted :: "(string \<times> entry option) list \<Rightarrow> property \<Rightarrow> staff_change list" where
  "staff_emitted previous p =
     (case map_of previous (kanri_no p) of
        Some (Some e) \<Rightarrow>
          if tracked p \<and> truthy_str (staff p) \<and> truthy_str (entry_staff e)
             \<and> staff p \<noteq> entry_staff e
          then [\<lparr>sc_kanri_no = kanri_no p, sc_building = building p,
                  sc_floor = floor_no p, sc_before = the (entry_staff e),
                  sc_after = the (staff p)\<rparr>] else []
      | _ \<Rightarrow> [])"

text \<open>The dictionary appended to \<^verbatim>\<open>ended_properties\<close> for an id and its ledger entry.\<close>

definition ended_entry :: "string \<Rightarrow> entry \<Rightarrow> ended_property" where
  "ended_entry k e =
     \<lparr>ep_kanri_no = k, ep_building = entry_building e, ep_floor = entry_floor e,
      ep_madori = entry_madori e, final_price = current_price e\<rparr>"

text \<open>The dict that was loaded, when it is one.\<close>

fun dict_of :: "loaded \<Rightarrow> (string \<times> entry option) list" where
  "dict_of (Dict d) = d"
| "dict_of (NonDict v) = []"

text \<open>
  A ledger file that \<^verbatim>\<open>detect_changes\<close> can work on: no file, a file that cannot be read,
  or an object whose values are all objects. \<^verbatim>\<open>save_current_data\<close> writes no other.
\<close>

definition ledger_ok :: "ledger_file \<Rightarrow> bool" where
  "ledger_ok f =
     (case f of
        Parsed (Dict d) \<Rightarrow> list_all (\<lambda>k. map_of d k \<noteq> Some None) (map fst d)
      | Parsed (NonDict v) \<Rightarrow> False
      | _ \<Rightarrow> True)"

text \<open>
  What the loop of \<^verbatim>\<open>save_current_data\<close> stores for one listing, and the loop on the
  loaded value without the world: used to reason about \<open>save_loop\<close>, to which
  \<open>save_loop_entries\<close> relates it.
\<close>

definition entry_for :: "loaded \<Rightarrow> string \<Rightarrow> property \<Rightarrow> py_error + entry" where
  "entry_for previous today p =
     (case previous_history previous (kanri_no p) of
        Inl e \<Rightarrow> Inl e
      | Inr history0 \<Rightarrow> tracker_entry today p (history_today history0 today p))"

fun entries_loop :: "loaded \<Rightarrow> string \<Rightarrow> property list \<Rightarrow> ledger \<Rightarrow> py_error + ledger" where
  "entries_loop previous today [] td = Inr td"
| "entries_loop previous today (p # ps) td =
     (if tracked p
      then (case entry_for previous today p of
              Inl e \<Rightarrow> Inl e
            | Inr ent \<Rightarrow> entries_loop previous today ps (AList.update (kanri_no p) ent td))
      else entries_loop previous today ps td)"

text \<open>The last listing of a list that the loops look at and that has the id \<open>k\<close>.\<close>

fun last_tracked :: "string \<Rightarrow> property list \<Rightarrow> property option" where
  "last_tracked k [] = None"
| "last_tracked k (p # ps) =
     (case last_tracked k ps of
        Some q \<Rightarrow> Some q
      | None \<Rightarrow> if tracked p \<and> kanri_no p = k then Some p else None)"

text \<open>
  The admission rule in the words of the specification: a defined area in
  \<open>[MIN_AREA, MAX_AREA)\<close> and a building tag among the three names.
\<close>

definition admitted :: "property \<Rightarrow> bool" where
  "admitted p =
     (case area p of
        None \<Rightarrow> False
      | Some a \<Rightarrow> MIN_AREA \<le> a \<and> a < MAX_AREA
          \<and> (case building p of
                None \<Rightarrow> False
              | Some t \<Rightarrow> t \<in> {tag_east, tag_west, tag_central}))"

text \<open>
  The link graph: the URLs that the traversal can come to from the seeds. A seed or a
  related link counts once it is made absolute and an id can be read from it.
\<close>

inductive_set reachable :: "web \<Rightarrow> string list \<Rightarrow> string set" for get :: web and seeds :: "string list" where
  seed: "s \<in> set seeds \<Longrightarrow> extract_property_id (absolute_url s) \<noteq> None \<Longrightarrow>
     absolute_url s \<in> reachable get seeds"
| link: "u \<in> reachable get seeds \<Longrightarrow>
     v \<in> set (fst (discover_related_properties get u {})) \<Longrightarrow>
     extract_property_id (absolute_url v) \<noteq> None \<Longrightarrow>
     absolute_url v \<in> reachable get seeds"

text \<open>The invariants of the traversal, for a set \<open>R\<close> of URLs that holds the graph.\<close>

definition frontier_ok :: "string set \<Rightarrow> string list \<times> string set \<times> string set \<Rightarrow> bool" where
  "frontier_ok R st =
     (snd (snd st) \<subseteq> R
      \<and> (\<forall>q \<in> set (fst st). extract_property_id (absolute_url q) \<noteq> None \<longrightarrow> absolute_url q \<in> R))"

definition frontier_complete ::
  "web \<Rightarrow> string list \<Rightarrow> string list \<times> string set \<times> string set \<Rightarrow> bool" where
  "frontier_complete get seeds st =
     (case st of (queue, visited, discovered) \<Rightarrow>
        visited \<subseteq> discovered
        \<and> (\<forall>d \<in> discovered. absolute_url d = d)
        \<and> (\<forall>s \<in> set seeds. extract_property_id (absolute_url s) \<noteq> None \<longrightarrow>
              absolute_url s \<in> discovered \<union> absolute_url ` set queue)
        \<and> (\<forall>u \<in> discovered. \<forall>v \<in> set (fst (discover_related_properties get u {})).
              extract_property_id (absolute_url v) \<noteq> None \<longrightarrow>
              absolute_url v \<in> discovered \<union> absolute_url ` set queue))"

text \<open>A page on which no link is found.\<close>

definition no_links :: page where
  "no_links = \<lparr>heading_links = [], anchor_links = []\<rparr>"


section \<open>Example data\<close>

text \<open>The listing of the test run at the end of \<^verbatim>\<open>price_tracker.py\<close>.\<close>

definition test_property :: property where
  "test_property =
     \<lparr>url = ''https://www.livable.co.jp/mansion/C13252K32/'', kanri_no = ''C13252K32'',
      error = None, price = Some 15800, madori = Some ''2LDK'', area = Some 70.32,
      building = Some tag_east, floor_no = Some ''17/42'', built = None, direction = None,
      reform = None, favorite_count = None,
      staff = Some [CHR 0xE8, CHR 0xA1, CHR 0x8C, CHR 0xE6, CHR 0x96, CHR 0xB9],
      price_per_sqm = Some 224.69, price_per_tsubo = Some 741.5\<rparr>"

text \<open>The entry that a commit on 2024-01-01 stores for it.\<close>

definition test_entry :: entry where
  "test_entry =
     \<lparr>history = [today_point ''2024-01-01'' test_property],
      first_seen = ''2024-01-01'', initial_price = Some 15800, current_price = Some 15800,
      current_area = Some 70.32, max_price = Some 15800, min_price = Some 15800,
      total_change = 0, entry_building = Some tag_east, entry_floor = Some ''17/42'',
      entry_madori = Some ''2LDK'',
      entry_staff = Some [CHR 0xE8, CHR 0xA1, CHR 0x8C, CHR 0xE6, CHR 0x96, CHR 0xB9]\<rparr>"

definition empty_world :: world where
  "empty_world = \<lparr>data_file = Missing, snapshots = [], stdout = []\<rparr>"

text \<open>The world after the first commit of the test listing, on 2024-01-01.\<close>

definition committed_world :: world where
  "committed_world =
     \<lparr>data_file = Parsed (dumped [(''C13252K32'', test_entry)]),
      snapshots = [(''2024-01-01'',
         \<lparr>snap_date = ''2024-01-01'', snap_properties = [test_property]\<rparr>)],
      stdout = []\<rparr>"

text \<open>A ledger with a second listing, which the next crawl does not find.\<close>

definition two_listings :: ledger where
  "two_listings = [(''C13252K32'', test_entry), (''C48258711'', test_entry)]"

text \<open>The entry of the test listing after a second commit, on 2024-01-02.\<close>

definition later_entry :: entry where
  "later_entry =
     test_entry\<lparr>history := [today_point ''2024-01-01'' test_property,
                             today_point ''2024-01-02'' test_property]\<rparr>"

definition two_world :: world where
  "two_world = empty_world\<lparr>data_file := Parsed (dumped two_listings)\<rparr>"

text \<open>
  Two iteration orders of the set of those two ids: the order of the ledger (sorting is
  stable), and the other one.
\<close>

definition ledger_order :: "string \<Rightarrow> nat" where
  "ledger_order k = 0"

definition other_order :: "string \<Rightarrow> nat" where
  "other_order k = (if k = ''C13252K32'' then 1 else 0)"

text \<open>A scraper whose second request fails.\<close>

definition test_body :: "string \<Rightarrow> string + property" where
  "test_body u =
     (if u = ''https://www.livable.co.jp/mansion/C13252K32/'' then Inr test_property
      else Inl ''timed out'')"

text \<open>
  The scenario of the specification: A links to A and B, B links to A and C, C links to
  nothing; any other page is not found.
\<close>

definition scenario_web :: web where
  "scenario_web u =
     (if u = ''https://www.livable.co.jp/mansion/CA/''
      then Inr \<lparr>heading_links = [[''/mansion/CA/'', ''/mansion/CB/'']], anchor_links = []\<rparr>
      else if u = ''https://www.livable.co.jp/mansion/CB/''
      then Inr \<lparr>heading_links = [], anchor_links = [''/mansion/CA/'', ''/mansion/CC/'']\<rparr>
      else if u = ''https://www.livable.co.jp/mansion/CC/''
      then Inr \<lparr>heading_links = [], anchor_links = []\<rparr>
      else Inl ''404 Client Error'')"

text \<open>A page that links to one listing under two spellings.\<close>

definition spellings_web :: web where
  "spellings_web u =
     (if u = ''https://www.livable.co.jp/mansion/CA/''
      then Inr \<lparr>heading_links = [[''/mansion/CB/'', ''/mansion/CB/?from=related'']],
                anchor_links = []\<rparr>
      else Inr no_links)"

section \<open>Change detection\<close>

lemma map_of_Some_key: "map_of xs k = Some e \<Longrightarrow> k \<in> fst ` set xs"
  using map_of_eq_None_iff[of xs k] by auto

lemma detect_loop_reform:
  "detect_loop d props ch = Inr ch' \<Longrightarrow> reform_changes ch' = reform_changes ch"
  by (induction props arbitrary: ch)
     (auto simp: Let_def split: option.splits if_splits)

lemma detect_loop_ended:
  "detect_loop d props ch = Inr ch' \<Longrightarrow> ended_properties ch' = ended_properties ch"
  by (induction props arbitrary: ch)
     (auto simp: Let_def split: option.splits if_splits)

lemma detect_loop_new_properties:
  "detect_loop d props ch = Inr ch' \<Longrightarrow>
     new_properties ch' =
       new_properties ch @
       map new_entry (filter (\<lambda>p. tracked p \<and> map_of d (kanri_no p) = None) props)"
  by (induction props arbitrary: ch)
     (auto simp: Let_def tracked_def new_entry_def split: option.splits if_splits)

lemma detect_loop_price_changes:
  "detect_loop d props ch = Inr ch' \<Longrightarrow>
     price_changes ch' = price_changes ch @ concat (map (price_emitted d) props)"
  by (induction props arbitrary: ch)
     (auto simp: Let_def tracked_def price_emitted_def price_entry_def
        split: option.splits if_splits)

lemma detect_loop_staff_changes:
  "detect_loop d props ch = Inr ch' \<Longrightarrow>
     staff_changes ch' = staff_changes ch @ concat (map (staff_emitted d) props)"
  by (induction props arbitrary: ch)
     (auto simp: Let_def tracked_def staff_emitted_def split: option.splits if_splits)

lemma detect_loop_consulted:
  "detect_loop d props ch = Inr ch' \<Longrightarrow> p \<in> set props \<Longrightarrow> tracked p \<Longrightarrow>
     map_of d (kanri_no p) \<noteq> Some None"
  by (induction props arbitrary: ch)
     (auto simp: Let_def tracked_def split: option.splits if_splits)

lemma detect_loop_returns:
  "(\<And>p. p \<in> set props \<Longrightarrow> tracked p \<Longrightarrow> map_of d (kanri_no p) \<noteq> Some None) \<Longrightarrow>
     \<exists>ch'. detect_loop d props ch = Inr ch'"
proof (induction props arbitrary: ch)
  case Nil
  show ?case by simp
next
  case (Cons p ps)
  have ih: "\<exists>ch'. detect_loop d ps c = Inr ch'" for c
    using Cons.prems by (intro Cons.IH) auto
  show ?case
  proof (cases "tracked p")
    case False
    with ih[of ch] show ?thesis by (auto simp: tracked_def)
  next
    case True
    with Cons.prems[of p] have ok: "map_of d (kanri_no p) \<noteq> Some None" by simp
    show ?thesis
    proof (cases "map_of d (kanri_no p)")
      case None
      with True ih show ?thesis by (simp add: tracked_def)
    next
      case (Some v)
      with ok obtain e where "v = Some e" by (cases v) auto
      with Some True ih show ?thesis by (simp add: tracked_def Let_def)
    qed
  qed
qed

lemma ended_loop_Inr:
  "ended_loop d ks ended = Inr r \<Longrightarrow>
     r = ended @ map (\<lambda>k. ended_entry k (the (the (map_of d k)))) ks
     \<and> (\<forall>k \<in> set ks. \<exists>e. map_of d k = Some (Some e))"
proof (induction ks arbitrary: ended)
  case Nil
  then show ?case by simp
next
  case (Cons k ks)
  from Cons.prems obtain e where m: "map_of d k = Some (Some e)"
    and rec: "ended_loop d ks (ended @ [ended_entry k e]) = Inr r"
    by (auto simp: ended_entry_def split: option.splits)
  from Cons.IH[OF rec] m show ?case by simp
qed

lemma ended_loop_returns:
  "(\<And>k. k \<in> set ks \<Longrightarrow> \<exists>e. map_of d k = Some (Some e)) \<Longrightarrow>
     \<exists>r. ended_loop d ks ended = Inr r"
proof (induction ks arbitrary: ended)
  case Nil
  show ?case by simp
next
  case (Cons k ks)
  from Cons.prems[of k] obtain e where "map_of d k = Some (Some e)" by auto
  moreover have "\<exists>r. ended_loop d ks c = Inr r" for c
    using Cons.prems by (intro Cons.IH) auto
  ultimately show ?case by simp
qed

lemma set_iteration_set: "set (set_iteration set_order ids) = set ids"
  by (simp add: set_iteration_def)

lemma any_order_is_a_set_order:
  assumes "distinct ys" and "set ys = set ids"
  shows "\<exists>set_order. set_iteration set_order ids = ys"
proof -
  let ?n = "length ys"
  let ?rank = "the_inv_into {..<?n} ((!) ys)"
  from assms(1) have inj: "inj_on ((!) ys) {..<?n}"
    by (simp add: inj_on_nth)
  have img: "(!) ys ` {..<?n} = set ys"
    by (auto simp: in_set_conv_nth)
  have "map ?rank ys = map ?rank (map ((!) ys) [0..<?n])"
    by (simp add: map_nth)
  also have "\<dots> = map (\<lambda>i. i) [0..<?n]"
    unfolding map_map by (rule map_cong) (simp_all add: the_inv_into_f_f[OF inj])
  finally have keys: "map ?rank ys = [0..<?n]" by simp
  have sorted: "sorted (map ?rank ys)"
    by (simp add: keys)
  have "inj_on ?rank ((!) ys ` {..<?n})"
    using inj by (rule inj_on_the_inv_into)
  with img assms(2) have inj': "inj_on ?rank (set (remdups ids))" by simp
  from assms have "mset (remdups ids) = mset ys"
    by (metis distinct_remdups set_eq_iff_mset_eq_distinct set_remdups)
  from sort_key_inj_key_eq[OF this inj' sorted]
  have "set_iteration ?rank ids = ys" by (simp add: set_iteration_def)
  then show ?thesis by blast
qed

text \<open>What a call that returns has computed, and when a call returns.\<close>

lemma detect_changes_Inr:
  assumes "detect_changes set_order props w = Inr (ch, w')"
  shows "\<exists>d. fst (load_previous_data w) = Dict d \<and> w' = snd (load_previous_data w)
     \<and> price_changes ch = concat (map (price_emitted d) props)
     \<and> new_properties ch =
         map new_entry (filter (\<lambda>p. tracked p \<and> map_of d (kanri_no p) = None) props)
     \<and> staff_changes ch = concat (map (staff_emitted d) props)
     \<and> reform_changes ch = []
     \<and> ended_properties ch =
         map (\<lambda>k. ended_entry k (the (the (map_of d k))))
           (set_iteration set_order (filter (\<lambda>k. k \<notin> current_ids props) (map fst d)))
     \<and> (\<forall>k. map_of d k \<noteq> Some None)"
proof -
  obtain previous w1 where l: "load_previous_data w = (previous, w1)"
    by (cases "load_previous_data w")
  with assms obtain d where d: "previous = Dict d"
    by (cases previous) (auto simp: detect_changes_def simp del: load_previous_data.simps)
  let ?ks = "set_iteration set_order (filter (\<lambda>k. k \<notin> current_ids props) (map fst d))"
  from assms l d obtain c where c: "detect_loop d props empty_changes = Inr c"
    by (auto simp: detect_changes_def simp del: load_previous_data.simps split: sum.splits)
  with assms l d obtain r where r: "ended_loop d ?ks (ended_properties c) = Inr r"
    and ch: "ch = c\<lparr>ended_properties := r\<rparr>" and w': "w' = w1"
    by (auto simp: detect_changes_def simp del: load_previous_data.simps split: sum.splits)
  from ended_loop_Inr[OF r] detect_loop_ended[OF c]
  have e: "r = map (\<lambda>k. ended_entry k (the (the (map_of d k)))) ?ks"
    and seen: "\<forall>k \<in> set ?ks. \<exists>e. map_of d k = Some (Some e)"
    by (simp_all add: empty_changes_def)
  have "map_of d k \<noteq> Some None" for k
  proof
    assume bad: "map_of d k = Some None"
    then have key: "k \<in> set (map fst d)" by (auto dest: map_of_Some_key)
    show False
    proof (cases "k \<in> current_ids props")
      case True
      then obtain p where "p \<in> set props" "tracked p" "kanri_no p = k"
        by (auto simp: current_ids_def tracked_def)
      with detect_loop_consulted[OF c] bad show False by blast
    next
      case False
      with key have "k \<in> set ?ks" by (simp add: set_iteration_set)
      with seen bad show False by auto
    qed
  qed
  with l d ch w' e detect_loop_price_changes[OF c] detect_loop_new_properties[OF c]
    detect_loop_staff_changes[OF c] detect_loop_reform[OF c]
  show ?thesis by (simp add: empty_changes_def del: load_previous_data.simps)
qed

lemma ledger_ok_dict:
  "ledger_ok (data_file w) \<Longrightarrow>
     \<exists>d. fst (load_previous_data w) = Dict d \<and> (\<forall>k. map_of d k \<noteq> Some None)"
proof (cases "data_file w")
  case (Parsed v)
  assume ok: "ledger_ok (data_file w)"
  with Parsed obtain d where d: "v = Dict d"
    by (cases v) (auto simp: ledger_ok_def)
  have "map_of d k \<noteq> Some None" for k
  proof (cases "k \<in> set (map fst d)")
    case True
    with ok Parsed d show ?thesis by (auto simp: ledger_ok_def list_all_iff)
  next
    case False
    then have "map_of d k = None" by (simp add: map_of_eq_None_iff)
    then show ?thesis by simp
  qed
  with Parsed d show ?thesis by simp
qed simp_all

lemma detect_changes_returns:
  assumes "ledger_ok (data_file w)"
  shows "\<exists>ch. detect_changes set_order props w = Inr (ch, snd (load_previous_data w))"
proof -
  from ledger_ok_dict[OF assms] obtain d where
    d: "fst (load_previous_data w) = Dict d" and ok: "\<And>k. map_of d k \<noteq> Some None"
    by blast
  from detect_loop_returns[of props d empty_changes] ok obtain c where
    c: "detect_loop d props empty_changes = Inr c" by blast
  let ?ks = "set_iteration set_order (filter (\<lambda>k. k \<notin> current_ids props) (map fst d))"
  have "\<exists>e. map_of d k = Some (Some e)" if "k \<in> set ?ks" for k
  proof -
    from that have "k \<in> set (map fst d)" by (simp add: set_iteration_set)
    then obtain v where v: "map_of d k = Some v"
      by (cases "map_of d k") (auto simp: map_of_eq_None_iff)
    with ok[of k] show ?thesis by (cases v) auto
  qed
  from ended_loop_returns[of ?ks d "ended_properties c"] this obtain r where
    "ended_loop d ?ks (ended_properties c) = Inr r" by blast
  with c d show ?thesis
    by (cases "load_previous_data w")
       (auto simp: detect_changes_def simp del: load_previous_data.simps)
qed

lemma detect_changes_returns_iff:
  "(\<exists>ch w'. detect_changes set_order props w = Inr (ch, w')) \<longleftrightarrow> ledger_ok (data_file w)"
proof
  assume "\<exists>ch w'. detect_changes set_order props w = Inr (ch, w')"
  then obtain ch w' where "detect_changes set_order props w = Inr (ch, w')" by blast
  from detect_changes_Inr[OF this] obtain d where
    "fst (load_previous_data w) = Dict d" "\<forall>k. map_of d k \<noteq> Some None" by blast
  then show "ledger_ok (data_file w)"
    by (cases "data_file w") (auto simp: ledger_ok_def list_all_iff)
next
  assume "ledger_ok (data_file w)"
  from detect_changes_returns[OF this] show "\<exists>ch w'. detect_changes set_order props w = Inr (ch, w')"
    by blast
qed

lemma price_emitted_Some:
  assumes "c \<in> set (price_emitted d p)"
  shows "\<exists>e. map_of d (kanri_no p) = Some (Some e) \<and> tracked p \<and> c = price_entry p e"
proof (cases "map_of d (kanri_no p)")
  case None
  with assms show ?thesis by (simp add: price_emitted_def)
next
  case (Some v)
  with assms show ?thesis
    by (cases v) (auto simp: price_emitted_def split: if_splits)
qed

lemma staff_emitted_Some:
  assumes "c \<in> set (staff_emitted d p)"
  shows "\<exists>e. map_of d (kanri_no p) = Some (Some e) \<and> tracked p \<and> sc_kanri_no c = kanri_no p"
proof (cases "map_of d (kanri_no p)")
  case None
  with assms show ?thesis by (simp add: staff_emitted_def)
next
  case (Some v)
  with assms show ?thesis
    by (cases v) (auto simp: staff_emitted_def split: if_splits)
qed

lemma price_emitted_ids:
  "c \<in> set (price_emitted d p) \<Longrightarrow> p \<in> set props \<Longrightarrow>
     pc_kanri_no c \<in> previous_ids d \<inter> current_ids props"
proof -
  assume c: "c \<in> set (price_emitted d p)" and p: "p \<in> set props"
  from price_emitted_Some[OF c] obtain e where
    m: "map_of d (kanri_no p) = Some (Some e)" and t: "tracked p"
    and ce: "c = price_entry p e"
    by blast
  from map_of_Some_key[OF m] have "kanri_no p \<in> previous_ids d"
    by (simp add: previous_ids_def)
  moreover from t p have "kanri_no p \<in> current_ids props"
    by (auto simp: current_ids_def tracked_def)
  ultimately show ?thesis using ce by (simp add: price_entry_def)
qed

lemma staff_emitted_ids:
  "c \<in> set (staff_emitted d p) \<Longrightarrow> p \<in> set props \<Longrightarrow>
     sc_kanri_no c \<in> previous_ids d \<inter> current_ids props"
proof -
  assume c: "c \<in> set (staff_emitted d p)" and p: "p \<in> set props"
  from staff_emitted_Some[OF c] obtain e where
    m: "map_of d (kanri_no p) = Some (Some e)" and t: "tracked p"
    and ce: "sc_kanri_no c = kanri_no p"
    by blast
  from map_of_Some_key[OF m] have "kanri_no p \<in> previous_ids d"
    by (simp add: previous_ids_def)
  moreover from t p have "kanri_no p \<in> current_ids props"
    by (auto simp: current_ids_def tracked_def)
  ultimately show ?thesis using ce by simp
qed

lemma new_ids:
  "set (map np_kanri_no
      (map new_entry (filter (\<lambda>p. tracked p \<and> map_of d (kanri_no p) = None) props))) =
     current_ids props - previous_ids d"
  by (auto simp: new_entry_def current_ids_def previous_ids_def tracked_def map_of_eq_None_iff)

lemma ended_ids:
  "set (map ep_kanri_no
      (map (\<lambda>k. ended_entry k (the (the (map_of d k))))
        (set_iteration set_order (filter (\<lambda>k. k \<notin> current_ids props) (map fst d))))) =
     previous_ids d - current_ids props"
  by (auto simp: set_iteration_set ended_entry_def previous_ids_def intro: rev_image_eqI)

lemma load_previous_data_cong:
  "data_file v = data_file w \<Longrightarrow> fst (load_previous_data v) = fst (load_previous_data w)"
  by (simp split: ledger_file.splits)

lemma dict_ids_cases:
  assumes "detect_changes set_order props w = Inr (ch, w')"
  shows "set (map np_kanri_no (new_properties ch))
       = current_ids props - previous_ids (dict_of (fst (load_previous_data w)))"
    and "set (map ep_kanri_no (ended_properties ch))
       = previous_ids (dict_of (fst (load_previous_data w))) - current_ids props"
    and "set (map pc_kanri_no (price_changes ch))
       \<subseteq> previous_ids (dict_of (fst (load_previous_data w))) \<inter> current_ids props"
    and "set (map sc_kanri_no (staff_changes ch))
       \<subseteq> previous_ids (dict_of (fst (load_previous_data w))) \<inter> current_ids props"
proof -
  from detect_changes_Inr[OF assms] obtain d where
    d: "fst (load_previous_data w) = Dict d"
    and pc: "price_changes ch = concat (map (price_emitted d) props)"
    and np: "new_properties ch =
         map new_entry (filter (\<lambda>p. tracked p \<and> map_of d (kanri_no p) = None) props)"
    and sc: "staff_changes ch = concat (map (staff_emitted d) props)"
    and ep: "ended_properties ch =
         map (\<lambda>k. ended_entry k (the (the (map_of d k))))
           (set_iteration set_order (filter (\<lambda>k. k \<notin> current_ids props) (map fst d)))"
    by blast
  show "set (map np_kanri_no (new_properties ch))
       = current_ids props - previous_ids (dict_of (fst (load_previous_data w)))"
    unfolding np d dict_of.simps by (rule new_ids)
  show "set (map ep_kanri_no (ended_properties ch))
       = previous_ids (dict_of (fst (load_previous_data w))) - current_ids props"
    unfolding ep d dict_of.simps by (rule ended_ids)
  show "set (map pc_kanri_no (price_changes ch))
       \<subseteq> previous_ids (dict_of (fst (load_previous_data w))) \<inter> current_ids props"
    unfolding pc d dict_of.simps using price_emitted_ids[of _ d _ props] by auto
  show "set (map sc_kanri_no (staff_changes ch))
       \<subseteq> previous_ids (dict_of (fst (load_previous_data w))) \<inter> current_ids props"
    unfolding sc d dict_of.simps using staff_emitted_ids[of _ d _ props] by auto
qed

text \<open>
  C5. \<^verbatim>\<open>detect_changes\<close> returns a change set on every ledger file that is not
  misshapen, whatever the iteration order of the set of ended ids, and every change set
  it returns splits the ids: the ids of the new listings, the ids in both the ledger and
  the current records, and the ids of the ended listings together are exactly the ids of
  the ledger and of the current records; no id is both new and ended; price changes and
  staff changes carry only ids that are in both. The current ids are those of line 115:
  of records without error and with an id.
\<close>

theorem partition_property:
  "(ledger_ok (data_file w) \<longrightarrow> (\<exists>ch w'. detect_changes set_order props w = Inr (ch, w')))
   \<and> (\<forall>ch w'. detect_changes set_order props w = Inr (ch, w') \<longrightarrow>
        set (map np_kanri_no (new_properties ch))
          \<union> (previous_ids (dict_of (fst (load_previous_data w))) \<inter> current_ids props)
          \<union> set (map ep_kanri_no (ended_properties ch))
        = previous_ids (dict_of (fst (load_previous_data w))) \<union> current_ids props
        \<and> set (map np_kanri_no (new_properties ch))
          \<inter> set (map ep_kanri_no (ended_properties ch)) = {}
        \<and> set (map pc_kanri_no (price_changes ch))
          \<subseteq> previous_ids (dict_of (fst (load_previous_data w))) \<inter> current_ids props
        \<and> set (map sc_kanri_no (staff_changes ch))
          \<subseteq> previous_ids (dict_of (fst (load_previous_data w))) \<inter> current_ids props)"
proof (intro conjI allI impI)
  assume "ledger_ok (data_file w)"
  from detect_changes_returns[OF this]
  show "\<exists>ch w'. detect_changes set_order props w = Inr (ch, w')" by blast
next
  fix ch w'
  assume r: "detect_changes set_order props w = Inr (ch, w')"
  note ids = dict_ids_cases[OF r]
  show "set (map np_kanri_no (new_properties ch))
          \<union> (previous_ids (dict_of (fst (load_previous_data w))) \<inter> current_ids props)
          \<union> set (map ep_kanri_no (ended_properties ch))
        = previous_ids (dict_of (fst (load_previous_data w))) \<union> current_ids props"
    unfolding ids(1,2) by blast
  show "set (map np_kanri_no (new_properties ch))
          \<inter> set (map ep_kanri_no (ended_properties ch)) = {}"
    unfolding ids(1,2) by blast
  show "set (map pc_kanri_no (price_changes ch))
          \<subseteq> previous_ids (dict_of (fst (load_previous_data w))) \<inter> current_ids props"
    by (rule ids(3))
  show "set (map sc_kanri_no (staff_changes ch))
          \<subseteq> previous_ids (dict_of (fst (load_previous_data w))) \<inter> current_ids props"
    by (rule ids(4))
qed

lemma two_world_detect:
  "detect_changes ledger_order [test_property] two_world =
     Inr (\<lparr>price_changes = [], new_properties = [],
           ended_properties = [ended_entry ''C48258711'' test_entry],
           reform_changes = [], staff_changes = []\<rparr>, two_world)"
  by (simp add: detect_changes_def two_world_def empty_world_def dumped_def two_listings_def
        test_property_def test_entry_def empty_changes_def current_ids_def set_iteration_def
        ended_entry_def ledger_order_def)

lemma two_world_ok: "ledger_ok (data_file two_world)"
  by (simp add: ledger_ok_def two_world_def empty_world_def dumped_def two_listings_def)

theorem partition_property_witness:
  "ledger_ok (data_file two_world)
   \<and> (\<exists>ch w'. detect_changes ledger_order [test_property] two_world = Inr (ch, w')
        \<and> set (map ep_kanri_no (ended_properties ch)) = {''C48258711''}
        \<and> set (map np_kanri_no (new_properties ch))
            \<union> (previous_ids (dict_of (fst (load_previous_data two_world)))
                 \<inter> current_ids [test_property])
            \<union> set (map ep_kanri_no (ended_properties ch))
          = previous_ids (dict_of (fst (load_previous_data two_world)))
              \<union> current_ids [test_property])"
proof -
  from partition_property [of two_world ledger_order "[test_property]"] two_world_detect
  have "set (map np_kanri_no (new_properties
            \<lparr>price_changes = [], new_properties = [],
             ended_properties = [ended_entry ''C48258711'' test_entry],
             reform_changes = [], staff_changes = []\<rparr>))
          \<union> (previous_ids (dict_of (fst (load_previous_data two_world)))
               \<inter> current_ids [test_property])
          \<union> set (map ep_kanri_no (ended_properties
            \<lparr>price_changes = [], new_properties = [],
             ended_properties = [ended_entry ''C48258711'' test_entry],
             reform_changes = [], staff_changes = []\<rparr>))
        = previous_ids (dict_of (fst (load_previous_data two_world)))
            \<union> current_ids [test_property]"
    by blast
  with two_world_ok two_world_detect show ?thesis
    by (simp add: ended_entry_def)
qed

text \<open>
  C10. Every change set that \<^verbatim>\<open>detect_changes\<close> returns (and it returns one on every ledger
  file that is not misshapen) has the five lists of the record \<open>changes\<close> and no other;
  its list \<^verbatim>\<open>reform_changes\<close> is empty for every input, so that
  \<^verbatim>\<open>any(changes.values())\<close>, which looks at all five, is decided by the other four.
\<close>

theorem reform_changes_never_populated:
  "(ledger_ok (data_file w) \<longrightarrow> (\<exists>ch w'. detect_changes set_order props w = Inr (ch, w')))
   \<and> (\<forall>ch w'. detect_changes set_order props w = Inr (ch, w') \<longrightarrow>
        reform_changes ch = []
        \<and> has_changes ch =
            (price_changes ch \<noteq> [] \<or> new_properties ch \<noteq> []
             \<or> ended_properties ch \<noteq> [] \<or> staff_changes ch \<noteq> []))"
proof (intro conjI allI impI)
  assume "ledger_ok (data_file w)"
  from detect_changes_returns[OF this]
  show "\<exists>ch w'. detect_changes set_order props w = Inr (ch, w')" by blast
next
  fix ch w'
  assume r: "detect_changes set_order props w = Inr (ch, w')"
  from detect_changes_Inr[OF r] show e: "reform_changes ch = []" by blast
  then show "has_changes ch =
            (price_changes ch \<noteq> [] \<or> new_properties ch \<noteq> []
             \<or> ended_properties ch \<noteq> [] \<or> staff_changes ch \<noteq> [])"
    by (simp add: has_changes_def)
qed

theorem reform_changes_never_populated_witness:
  "ledger_ok (data_file empty_world)
   \<and> (\<exists>ch w'. detect_changes ledger_order [test_property] empty_world = Inr (ch, w')
        \<and> reform_changes ch = [] \<and> has_changes ch)"
proof -
  have ok: "ledger_ok (data_file empty_world)"
    by (simp add: ledger_ok_def empty_world_def)
  with reform_changes_never_populated [of empty_world ledger_order "[test_property]"]
  obtain ch w' where r: "detect_changes ledger_order [test_property] empty_world = Inr (ch, w')"
    and e: "reform_changes ch = []"
    and h: "has_changes ch =
            (price_changes ch \<noteq> [] \<or> new_properties ch \<noteq> []
             \<or> ended_properties ch \<noteq> [] \<or> staff_changes ch \<noteq> [])"
    by blast
  from detect_changes_Inr[OF r] have "new_properties ch \<noteq> []"
    by (auto simp: empty_world_def tracked_def test_property_def)
  with ok r e h show ?thesis by blast
qed

text \<open>
  C8, as the code has it. When \<^verbatim>\<open>open\<close> or \<^verbatim>\<open>json.load\<close> raises on the ledger file,
  \<^verbatim>\<open>detect_changes\<close> still returns: every current record without error and with an id is
  reported as new, in order; there are no price changes, no staff changes and no ended
  listings; and the only trace of the failure is one printed line. When the file parses
  to something else than an object whose values are all objects, \<^verbatim>\<open>detect_changes\<close>
  raises instead.
\<close>

theorem unreadable_ledger_is_empty:
  "(\<forall>msg. data_file w = Unreadable msg \<longrightarrow>
      detect_changes set_order props w =
        Inr (\<lparr>price_changes = [], new_properties = map new_entry (filter tracked props),
               ended_properties = [], reform_changes = [], staff_changes = []\<rparr>,
             w\<lparr>stdout := stdout w @ [load_failed_prefix @ msg]\<rparr>))
   \<and> (\<not> ledger_ok (data_file w) \<longrightarrow> (\<exists>e. detect_changes set_order props w = Inl e))"
proof (intro conjI allI impI)
  fix msg
  assume u: "data_file w = Unreadable msg"
  have a: "detect_loop [] props ch =
      Inr (ch\<lparr>new_properties := new_properties ch @ map new_entry (filter tracked props)\<rparr>)"
    for ch
    by (induction props arbitrary: ch) (auto simp: tracked_def new_entry_def)
  show "detect_changes set_order props w =
        Inr (\<lparr>price_changes = [], new_properties = map new_entry (filter tracked props),
               ended_properties = [], reform_changes = [], staff_changes = []\<rparr>,
             w\<lparr>stdout := stdout w @ [load_failed_prefix @ msg]\<rparr>)"
    using u by (simp add: detect_changes_def a set_iteration_def empty_changes_def)
next
  assume n: "\<not> ledger_ok (data_file w)"
  show "\<exists>e. detect_changes set_order props w = Inl e"
  proof (cases "detect_changes set_order props w")
    case (Inl e)
    then show ?thesis by blast
  next
    case (Inr r)
    then have "\<exists>ch w'. detect_changes set_order props w = Inr (ch, w')"
      by (cases r) simp
    then have "ledger_ok (data_file w)"
      by (simp only: detect_changes_returns_iff)
    with n show ?thesis by simp
  qed
qed

theorem unreadable_ledger_is_empty_witness:
  "data_file (empty_world\<lparr>data_file := Unreadable ''Expecting value''\<rparr>)
     = Unreadable ''Expecting value''
   \<and> detect_changes ledger_order [test_property]
       (empty_world\<lparr>data_file := Unreadable ''Expecting value''\<rparr>)
     = Inr (\<lparr>price_changes = [], new_properties = [new_entry test_property],
             ended_properties = [], reform_changes = [], staff_changes = []\<rparr>,
            empty_world\<lparr>data_file := Unreadable ''Expecting value'',
                        stdout := [load_failed_prefix @ ''Expecting value'']\<rparr>)
   \<and> \<not> ledger_ok (data_file (empty_world\<lparr>data_file := Parsed (NonDict (JList []))\<rparr>))
   \<and> (\<exists>e. detect_changes ledger_order [test_property]
              (empty_world\<lparr>data_file := Parsed (NonDict (JList []))\<rparr>) = Inl e)"
proof -
  have h: "data_file (empty_world\<lparr>data_file := Unreadable ''Expecting value''\<rparr>)
      = Unreadable ''Expecting value''"
    by simp
  have n: "\<not> ledger_ok (data_file (empty_world\<lparr>data_file := Parsed (NonDict (JList []))\<rparr>))"
    by (simp add: ledger_ok_def)
  from unreadable_ledger_is_empty
         [of "empty_world\<lparr>data_file := Unreadable ''Expecting value''\<rparr>"
             ledger_order "[test_property]"] h
  have a: "detect_changes ledger_order [test_property]
       (empty_world\<lparr>data_file := Unreadable ''Expecting value''\<rparr>)
     = Inr (\<lparr>price_changes = [], new_properties = [new_entry test_property],
             ended_properties = [], reform_changes = [], staff_changes = []\<rparr>,
            empty_world\<lparr>data_file := Unreadable ''Expecting value'',
                        stdout := [load_failed_prefix @ ''Expecting value'']\<rparr>)"
    by (simp add: tracked_def test_property_def empty_world_def)
  from unreadable_ledger_is_empty
         [of "empty_world\<lparr>data_file := Parsed (NonDict (JList []))\<rparr>"
             ledger_order "[test_property]"] n
  have b: "\<exists>e. detect_changes ledger_order [test_property]
              (empty_world\<lparr>data_file := Parsed (NonDict (JList []))\<rparr>) = Inl e"
    by blast
  from h n a b show ?thesis by blast
qed

text \<open>
  The claim C8 as it is written fails on a ledger file that is malformed and yet parses.
  \<^verbatim>\<open>load_previous_data\<close> returns what \<^verbatim>\<open>json.load\<close> gives without looking at it: on the
  JSON text \<^verbatim>\<open>[]\<close> line 116 raises, and on an object with a \<^verbatim>\<open>null\<close> entry line 140 does.
  Nothing is printed, and the call does not return.
\<close>

theorem misshapen_ledger_counterexample:
  "detect_changes ledger_order [test_property]
       (empty_world\<lparr>data_file := Parsed (NonDict (JList []))\<rparr>) = Inl AttributeError
   \<and> detect_changes ledger_order [test_property]
       (empty_world\<lparr>data_file := Parsed (Dict [(''C13252K32'', None)])\<rparr>) = Inl AttributeError"
  by (simp add: detect_changes_def empty_world_def test_property_def)

text \<open>
  C4, as the code has it. \<^verbatim>\<open>detect_changes\<close> takes the current records only and reads
  the ledger file itself. A call that returns has written neither the ledger file nor a
  snapshot, and has printed one line exactly when the file could not be read. Its change
  set is fixed by the records and the contents of the file, up to the order of the ended
  listings: a second call with the same records on the same file contents returns too,
  with the same price changes, new listings and staff changes, and with the same ended
  listings in the order in which its own set happens to be iterated (in the same order,
  when the sets are iterated alike).
\<close>

theorem detect_changes_reads_file:
  assumes "detect_changes set_order props w = Inr (ch, w')"
    and "data_file v = data_file w"
  shows "data_file w' = data_file w \<and> snapshots w' = snapshots w
     \<and> stdout w' = stdout w @
         (case data_file w of Unreadable e \<Rightarrow> [load_failed_prefix @ e] | _ \<Rightarrow> [])
     \<and> (\<exists>ch2 v'. detect_changes set_order2 props v = Inr (ch2, v')
          \<and> price_changes ch2 = price_changes ch \<and> new_properties ch2 = new_properties ch
          \<and> staff_changes ch2 = staff_changes ch \<and> reform_changes ch2 = reform_changes ch
          \<and> mset (ended_properties ch2) = mset (ended_properties ch))
     \<and> (\<exists>v'. detect_changes set_order props v = Inr (ch, v'))"
proof -
  from detect_changes_Inr[OF assms(1)] obtain d where
    d: "fst (load_previous_data w) = Dict d" and w': "w' = snd (load_previous_data w)"
    and pc: "price_changes ch = concat (map (price_emitted d) props)"
    and np: "new_properties ch =
         map new_entry (filter (\<lambda>p. tracked p \<and> map_of d (kanri_no p) = None) props)"
    and sc: "staff_changes ch = concat (map (staff_emitted d) props)"
    and rc: "reform_changes ch = []"
    and ep: "ended_properties ch =
         map (\<lambda>k. ended_entry k (the (the (map_of d k))))
           (set_iteration set_order (filter (\<lambda>k. k \<notin> current_ids props) (map fst d)))"
    by blast
  from w' have frame: "data_file w' = data_file w \<and> snapshots w' = snapshots w
     \<and> stdout w' = stdout w @
         (case data_file w of Unreadable e \<Rightarrow> [load_failed_prefix @ e] | _ \<Rightarrow> [])"
    by (cases "data_file w") simp_all
  from assms(1) have "ledger_ok (data_file w)"
    using detect_changes_returns_iff[of set_order props w] by blast
  with assms(2) have okv: "ledger_ok (data_file v)" by simp
  from load_previous_data_cong[OF assms(2)] d have dv: "fst (load_previous_data v) = Dict d"
    by simp
  have other: "\<exists>c v'. detect_changes so props v = Inr (c, v')
          \<and> price_changes c = price_changes ch \<and> new_properties c = new_properties ch
          \<and> staff_changes c = staff_changes ch \<and> reform_changes c = reform_changes ch
          \<and> ended_properties c =
              map (\<lambda>k. ended_entry k (the (the (map_of d k))))
                (set_iteration so (filter (\<lambda>k. k \<notin> current_ids props) (map fst d)))" for so
  proof -
    from detect_changes_returns[OF okv, of so props] obtain c where
      r: "detect_changes so props v = Inr (c, snd (load_previous_data v))" by blast
    from detect_changes_Inr[OF r] dv pc np sc rc show ?thesis
      using r by (auto simp del: load_previous_data.simps)
  qed
  from other[of set_order2] ep
  have two: "\<exists>ch2 v'. detect_changes set_order2 props v = Inr (ch2, v')
          \<and> price_changes ch2 = price_changes ch \<and> new_properties ch2 = new_properties ch
          \<and> staff_changes ch2 = staff_changes ch \<and> reform_changes ch2 = reform_changes ch
          \<and> mset (ended_properties ch2) = mset (ended_properties ch)"
    by (auto simp: set_iteration_def)
  from other[of set_order] obtain c v' where
    r: "detect_changes set_order props v = Inr (c, v')"
    and "price_changes c = price_changes ch" "new_properties c = new_properties ch"
      "staff_changes c = staff_changes ch" "reform_changes c = reform_changes ch"
      "ended_properties c = ended_properties ch"
    using ep by auto
  then have "c = ch" by simp
  with r have same: "\<exists>v'. detect_changes set_order props v = Inr (ch, v')" by blast
  from frame two same show ?thesis by blast
qed

theorem detect_changes_reads_file_witness:
  "detect_changes ledger_order [] two_world =
      Inr (\<lparr>price_changes = [], new_properties = [],
            ended_properties = [ended_entry ''C13252K32'' test_entry,
                                ended_entry ''C48258711'' test_entry],
            reform_changes = [], staff_changes = []\<rparr>, two_world)
   \<and> data_file (two_world\<lparr>stdout := [''x'']\<rparr>) = data_file two_world
   \<and> (\<exists>ch2 v'. detect_changes other_order [] (two_world\<lparr>stdout := [''x'']\<rparr>) = Inr (ch2, v')
        \<and> mset (ended_properties ch2)
            = mset [ended_entry ''C13252K32'' test_entry, ended_entry ''C48258711'' test_entry])"
proof -
  have r: "detect_changes ledger_order [] two_world =
      Inr (\<lparr>price_changes = [], new_properties = [],
            ended_properties = [ended_entry ''C13252K32'' test_entry,
                                ended_entry ''C48258711'' test_entry],
            reform_changes = [], staff_changes = []\<rparr>, two_world)"
    by (simp add: detect_changes_def two_world_def empty_world_def dumped_def two_listings_def
          empty_changes_def current_ids_def set_iteration_def ended_entry_def ledger_order_def)
  have f: "data_file (two_world\<lparr>stdout := [''x'']\<rparr>) = data_file two_world"
    by simp
  from detect_changes_reads_file [OF r f, of other_order] r f show ?thesis
    by auto
qed

text \<open>
  The claim C4 as it is written fails: with the same records the change set differs with
  the contents of the ledger file; on an unreadable file the call prints; and on the same
  records and the same file the ended listings come in the order in which the set of
  their ids is iterated, which is not the same in every process.
\<close>

theorem detect_changes_pure_counterexample:
  "map_sum id fst (detect_changes ledger_order [test_property] empty_world)
     \<noteq> map_sum id fst (detect_changes ledger_order [test_property] committed_world)
   \<and> map_sum id snd (detect_changes ledger_order [test_property]
              (empty_world\<lparr>data_file := Unreadable ''Expecting value''\<rparr>))
     \<noteq> Inr (empty_world\<lparr>data_file := Unreadable ''Expecting value''\<rparr>)
   \<and> map_sum id fst (detect_changes ledger_order [] two_world)
     \<noteq> map_sum id fst (detect_changes other_order [] two_world)"
  by (simp add: detect_changes_def empty_world_def committed_world_def two_world_def
        dumped_def two_listings_def test_property_def test_entry_def empty_changes_def
        current_ids_def set_iteration_def ledger_order_def other_order_def)

lemma price_emitted_iff:
  assumes "map_of d (kanri_no p) = Some (Some e)" and "kanri_no p \<noteq> []"
    and "error p \<noteq> None \<longrightarrow> price p = None"
  shows "price_emitted d p =
     (if \<exists>a b. price p = Some a \<and> current_price e = Some b \<and> a \<noteq> 0 \<and> b \<noteq> 0 \<and> a \<noteq> b
      then [price_entry p e] else [])"
proof (cases "price p")
  case None
  with assms show ?thesis by (simp add: price_emitted_def)
next
  case (Some a)
  with assms(3) have "error p = None" by auto
  with assms Some show ?thesis
    by (cases "current_price e") (auto simp: price_emitted_def tracked_def)
qed

text \<open>
  C6, as the code has it. For a current record with a non-empty id that is in the stored
  ledger (a failed record carrying no price), \<^verbatim>\<open>detect_changes\<close> adds, at the record's
  place in \<^verbatim>\<open>price_changes\<close>, one entry if and only if the record's price and the entry's
  \<^verbatim>\<open>current_price\<close> are both defined, both non-zero and different; the entry has the old
  and the new price, their difference as \<^verbatim>\<open>change_amount\<close>, and
  \<^verbatim>\<open>change_amount / before * 100\<close> as \<^verbatim>\<open>change_rate\<close>. The ledger file is one that is not
  misshapen, which is to say one on which \<^verbatim>\<open>detect_changes\<close> returns
  (\<open>detect_changes_returns_iff\<close>).
\<close>

theorem price_change_emitted_iff:
  assumes "ledger_ok (data_file w)"
    and "map_of (dict_of (fst (load_previous_data w))) (kanri_no p) = Some (Some e)"
    and "kanri_no p \<noteq> []" and "error p \<noteq> None \<longrightarrow> price p = None"
  shows "(\<exists>ch cx cy w'.
            detect_changes set_order (xs @ p # ys) w = Inr (ch, w')
            \<and> detect_changes set_order xs w = Inr (cx, w')
            \<and> detect_changes set_order ys w = Inr (cy, w')
            \<and> price_changes ch =
                price_changes cx
                @ (if \<exists>a b. price p = Some a \<and> current_price e = Some b
                         \<and> a \<noteq> 0 \<and> b \<noteq> 0 \<and> a \<noteq> b
                   then [price_entry p e] else [])
                @ price_changes cy)
         \<and> (\<forall>a b. price p = Some a \<and> current_price e = Some b \<longrightarrow>
               pc_kanri_no (price_entry p e) = kanri_no p
               \<and> pc_before (price_entry p e) = b \<and> pc_after (price_entry p e) = a
               \<and> change_amount (price_entry p e) = a - b
               \<and> change_rate (price_entry p e) = real_of_int (a - b) / real_of_int b * 100)"
proof -
  have run: "\<exists>c. detect_changes set_order props w = Inr (c, snd (load_previous_data w))
      \<and> price_changes c
          = concat (map (price_emitted (dict_of (fst (load_previous_data w)))) props)" for props
  proof -
    from detect_changes_returns[OF assms(1), of set_order props] obtain c where
      r: "detect_changes set_order props w = Inr (c, snd (load_previous_data w))" by blast
    from detect_changes_Inr[OF r] have "price_changes c
          = concat (map (price_emitted (dict_of (fst (load_previous_data w)))) props)"
      by (auto simp del: load_previous_data.simps)
    with r show ?thesis by blast
  qed
  from run[of "xs @ p # ys"] run[of xs] run[of ys]
    price_emitted_iff[OF assms(2,3,4)]
  have "\<exists>ch cx cy w'.
            detect_changes set_order (xs @ p # ys) w = Inr (ch, w')
            \<and> detect_changes set_order xs w = Inr (cx, w')
            \<and> detect_changes set_order ys w = Inr (cy, w')
            \<and> price_changes ch =
                price_changes cx
                @ (if \<exists>a b. price p = Some a \<and> current_price e = Some b
                         \<and> a \<noteq> 0 \<and> b \<noteq> 0 \<and> a \<noteq> b
                   then [price_entry p e] else [])
                @ price_changes cy"
    by (auto simp del: load_previous_data.simps)
  then show ?thesis by (simp add: price_entry_def del: load_previous_data.simps)
qed

theorem price_change_emitted_iff_witness:
  "ledger_ok (data_file committed_world)
   \<and> map_of (dict_of (fst (load_previous_data committed_world)))
       (kanri_no (test_property\<lparr>price := Some 16590\<rparr>)) = Some (Some test_entry)
   \<and> kanri_no (test_property\<lparr>price := Some 16590\<rparr>) \<noteq> []
   \<and> (\<exists>ch w'. detect_changes ledger_order [test_property\<lparr>price := Some 16590\<rparr>] committed_world
          = Inr (ch, w')
        \<and> price_changes ch = [price_entry (test_property\<lparr>price := Some 16590\<rparr>) test_entry])
   \<and> change_amount (price_entry (test_property\<lparr>price := Some 16590\<rparr>) test_entry) = 790
   \<and> change_rate (price_entry (test_property\<lparr>price := Some 16590\<rparr>) test_entry) = 5"
proof -
  have h0: "ledger_ok (data_file committed_world)"
    by (simp add: ledger_ok_def committed_world_def dumped_def)
  have h1: "map_of (dict_of (fst (load_previous_data committed_world)))
       (kanri_no (test_property\<lparr>price := Some 16590\<rparr>)) = Some (Some test_entry)"
    by (simp add: committed_world_def dumped_def test_property_def)
  have h2: "kanri_no (test_property\<lparr>price := Some 16590\<rparr>) \<noteq> []"
    by (simp add: test_property_def)
  have h3: "error (test_property\<lparr>price := Some 16590\<rparr>) \<noteq> None
      \<longrightarrow> price (test_property\<lparr>price := Some 16590\<rparr>) = None"
    by (simp add: test_property_def)
  have p: "price (test_property\<lparr>price := Some 16590\<rparr>) = Some 16590"
    "current_price test_entry = Some 15800"
    by (simp_all add: test_entry_def)
  have nil: "detect_changes ledger_order [] committed_world = Inr (c, w') \<Longrightarrow> price_changes c = []"
    for c w'
    by (auto simp: detect_changes_def empty_changes_def committed_world_def dumped_def
          split: sum.splits)
  from price_change_emitted_iff [OF h0 h1 h2 h3, of ledger_order "[]" "[]"] p nil h0 h1 h2
  show ?thesis by fastforce
qed

text \<open>
  The claim C6 as it is written fails at a price of 0: the test
  \<^verbatim>\<open>if current_price and previous_price and ...\<close> reads 0 as absent, so a listing whose
  price is defined and differs from the ledger's gets no entry.
\<close>

theorem price_change_zero_counterexample:
  "price (test_property\<lparr>price := Some 0\<rparr>) = Some 0
   \<and> current_price test_entry = Some 15800
   \<and> map_of (dict_of (fst (load_previous_data committed_world)))
        (kanri_no (test_property\<lparr>price := Some 0\<rparr>)) = Some (Some test_entry)
   \<and> map_sum id (\<lambda>r. price_changes (fst r))
        (detect_changes ledger_order [test_property\<lparr>price := Some 0\<rparr>] committed_world) = Inr []"
  by (simp add: detect_changes_def empty_changes_def committed_world_def dumped_def
        test_property_def test_entry_def set_iteration_def current_ids_def)

section \<open>Admission filter\<close>

lemma filter_loop_admitted:
  "filter_loop body urls acc = acc @ filter admitted (map (scrape_property body) urls)"
  by (induction urls arbitrary: acc)
     (auto simp: admitted_def Let_def tag_east_def tag_west_def tag_central_def
        split: option.splits)

lemma main_tail_Inr:
  assumes "main_tail set_order props n today w = Inr r"
  shows "run_properties r = props \<and> total_discovered r = n
     \<and> (\<exists>w1. detect_changes set_order props w = Inr (run_changes r, w1)
           \<and> save_current_data props today w1 = Inr (run_world r))"
proof -
  from assms obtain ch w1 where d: "detect_changes set_order props w = Inr (ch, w1)"
    by (cases "detect_changes set_order props w") (auto simp: main_tail_def)
  with assms obtain w2 where s: "save_current_data props today w1 = Inr w2"
    by (cases "save_current_data props today w1")
       (auto simp: main_tail_def split: sum.splits if_splits)
  from assms d s have "r = \<lparr>run_properties = props, run_changes = ch,
      total_discovered = n, run_world = w2\<rparr>"
    by (auto simp: main_tail_def split: sum.splits if_splits)
  with d s show ?thesis by simp
qed

text \<open>
  A run ends in the change report when a new listing has no price: nothing is committed
  and \<^verbatim>\<open>generate_html\<close> is not called.
\<close>

lemma main_aborts_in_report:
  "main_tail ledger_order
     [test_property\<lparr>price := None, price_per_sqm := None, price_per_tsubo := None\<rparr>]
     1 ''2024-01-01'' empty_world = Inl TypeError"
  by (simp add: main_tail_def detect_changes_def empty_world_def test_property_def
        empty_changes_def set_iteration_def has_changes_def generate_change_report_def)

text \<open>
  C7. The filtering loop of \<^verbatim>\<open>main\<close> keeps exactly the scraped records that the admission
  rule admits, in order; a record whose fetch raised is not admitted (it has no area, so
  neither area nor tag is looked at); the rest of \<^verbatim>\<open>main\<close> runs on the admitted records
  and on the number of all discovered URLs; and whenever a run comes to
  \<^verbatim>\<open>generate_html\<close>, the records it has handed to \<^verbatim>\<open>detect_changes\<close> and
  \<^verbatim>\<open>save_current_data\<close> are those, and the total it hands over is that number.
\<close>

theorem admission_filter:
  "filter_loop body urls [] = filter admitted (map (scrape_property body) urls)
   \<and> (\<forall>u e. body u = Inl e \<longrightarrow> \<not> admitted (scrape_property body u))
   \<and> main_auto set_order body urls today w =
       main_tail set_order (filter admitted (map (scrape_property body) urls)) (length urls)
         today w
   \<and> (\<forall>r. main_auto set_order body urls today w = Inr r \<longrightarrow>
         run_properties r = filter admitted (map (scrape_property body) urls)
         \<and> total_discovered r = length urls
         \<and> (\<exists>w1. detect_changes set_order (run_properties r) w = Inr (run_changes r, w1)
               \<and> save_current_data (run_properties r) today w1 = Inr (run_world r)))"
proof -
  have f: "filter_loop body urls [] = filter admitted (map (scrape_property body) urls)"
    by (simp add: filter_loop_admitted)
  have e: "\<forall>u e. body u = Inl e \<longrightarrow> \<not> admitted (scrape_property body u)"
    by (simp add: scrape_property_def admitted_def)
  have m: "main_auto set_order body urls today w =
       main_tail set_order (filter admitted (map (scrape_property body) urls)) (length urls)
         today w"
    by (simp add: main_auto_def f)
  have "run_properties r = filter admitted (map (scrape_property body) urls)
         \<and> total_discovered r = length urls
         \<and> (\<exists>w1. detect_changes set_order (run_properties r) w = Inr (run_changes r, w1)
               \<and> save_current_data (run_properties r) today w1 = Inr (run_world r))"
    if "main_auto set_order body urls today w = Inr r" for r
    using main_tail_Inr[of set_order _ "length urls" today w r] that m by auto
  with f e m show ?thesis by blast
qed

theorem admission_filter_witness:
  "filter_loop test_body
      [''https://www.livable.co.jp/mansion/C13252K32/'',
       ''https://www.livable.co.jp/mansion/C48258711/''] [] = [test_property]
   \<and> test_body ''https://www.livable.co.jp/mansion/C48258711/'' = Inl ''timed out''
   \<and> \<not> admitted (scrape_property test_body ''https://www.livable.co.jp/mansion/C48258711/'')
   \<and> admitted test_property
   \<and> (\<exists>r. main_auto ledger_order test_body
             [''https://www.livable.co.jp/mansion/C13252K32/'',
              ''https://www.livable.co.jp/mansion/C48258711/''] ''2024-01-01'' empty_world
           = Inr r
         \<and> run_properties r = [test_property] \<and> total_discovered r = 2
         \<and> run_world r = committed_world)"
proof -
  have a: "admitted test_property"
    by (simp add: admitted_def test_property_def MIN_AREA_def MAX_AREA_def)
  have b: "test_body ''https://www.livable.co.jp/mansion/C48258711/'' = Inl ''timed out''"
    by (simp add: test_body_def)
  have c: "scrape_property test_body ''https://www.livable.co.jp/mansion/C13252K32/'' = test_property"
    by (simp add: scrape_property_def test_body_def)
  have t: "main_tail ledger_order [test_property] 2 ''2024-01-01'' empty_world =
      Inr \<lparr>run_properties = [test_property],
           run_changes = \<lparr>price_changes = [], new_properties = [new_entry test_property],
             ended_properties = [], reform_changes = [], staff_changes = []\<rparr>,
           total_discovered = 2, run_world = committed_world\<rparr>"
    by (simp add: main_tail_def detect_changes_def empty_world_def committed_world_def
          test_property_def test_entry_def empty_changes_def set_iteration_def has_changes_def
          generate_change_report_def new_entry_def save_current_data_def tracker_entry_def
          history_today_def today_point_def dumped_def Let_def)
  note inst = admission_filter [of test_body
      "[''https://www.livable.co.jp/mansion/C13252K32/'',
        ''https://www.livable.co.jp/mansion/C48258711/'']" ledger_order "''2024-01-01''"
      empty_world]
  from inst b have e:
    "\<not> admitted (scrape_property test_body ''https://www.livable.co.jp/mansion/C48258711/'')"
    by blast
  with a c have flt: "filter admitted (map (scrape_property test_body)
      [''https://www.livable.co.jp/mansion/C13252K32/'',
       ''https://www.livable.co.jp/mansion/C48258711/'']) = [test_property]"
    by simp
  from inst have f: "filter_loop test_body
      [''https://www.livable.co.jp/mansion/C13252K32/'',
       ''https://www.livable.co.jp/mansion/C48258711/''] [] =
      filter admitted (map (scrape_property test_body)
      [''https://www.livable.co.jp/mansion/C13252K32/'',
       ''https://www.livable.co.jp/mansion/C48258711/''])"
    by blast
  have len: "length [''https://www.livable.co.jp/mansion/C13252K32/'',
       ''https://www.livable.co.jp/mansion/C48258711/''] = 2"
    by simp
  from inst have "main_auto ledger_order test_body
             [''https://www.livable.co.jp/mansion/C13252K32/'',
              ''https://www.livable.co.jp/mansion/C48258711/''] ''2024-01-01'' empty_world
      = main_tail ledger_order (filter admitted (map (scrape_property test_body)
          [''https://www.livable.co.jp/mansion/C13252K32/'',
           ''https://www.livable.co.jp/mansion/C48258711/'']))
          (length [''https://www.livable.co.jp/mansion/C13252K32/'',
           ''https://www.livable.co.jp/mansion/C48258711/'']) ''2024-01-01'' empty_world"
    by blast
  then have "main_auto ledger_order test_body
             [''https://www.livable.co.jp/mansion/C13252K32/'',
              ''https://www.livable.co.jp/mansion/C48258711/''] ''2024-01-01'' empty_world
      = Inr \<lparr>run_properties = [test_property],
           run_changes = \<lparr>price_changes = [], new_properties = [new_entry test_property],
             ended_properties = [], reform_changes = [], staff_changes = []\<rparr>,
           total_discovered = 2, run_world = committed_world\<rparr>"
    unfolding flt len t .
  with f flt a b e show ?thesis by simp
qed

section \<open>Commit\<close>

lemma load_previous_data_frame:
  "data_file (snd (load_previous_data w)) = data_file w"
  "snapshots (snd (load_previous_data w)) = snapshots w"
  "fst (load_previous_data (snd (load_previous_data w))) = fst (load_previous_data w)"
  by (simp_all split: ledger_file.splits)

lemma save_loop_skip:
  "\<not> tracked p \<Longrightarrow> save_loop today (p # ps) td w = save_loop today ps td w"
  by (auto simp: tracked_def)

lemma save_loop_step:
  "tracked p \<Longrightarrow> save_loop today (p # ps) td w =
     (case entry_for (fst (load_previous_data w)) today p of
        Inl e \<Rightarrow> Inl e
      | Inr ent \<Rightarrow>
          save_loop today ps (AList.update (kanri_no p) ent td) (snd (load_previous_data w)))"
  by (cases "load_previous_data w")
     (auto simp: tracked_def entry_for_def simp del: load_previous_data.simps
        split: sum.splits)

lemma save_loop_entries:
  "map_sum id fst (save_loop today props td w) =
     entries_loop (fst (load_previous_data w)) today props td"
proof (induction props arbitrary: td w)
  case Nil
  show ?case by simp
next
  case (Cons p ps)
  show ?case
  proof (cases "tracked p")
    case False
    then show ?thesis using Cons.IH[of td w]
      by (simp add: save_loop_skip del: save_loop.simps load_previous_data.simps)
  next
    case True
    then show ?thesis
      using Cons.IH[of _ "snd (load_previous_data w)"]
      by (simp add: save_loop_step load_previous_data_frame
            del: save_loop.simps load_previous_data.simps split: sum.splits)
  qed
qed

lemma save_loop_frame:
  "save_loop today props td w = Inr (td', w') \<Longrightarrow>
     data_file w' = data_file w \<and> snapshots w' = snapshots w
     \<and> (\<forall>v. data_file w = Parsed v \<longrightarrow> w' = w)"
proof (induction props arbitrary: td w)
  case Nil
  then show ?case by simp
next
  case (Cons p ps)
  show ?case
  proof (cases "tracked p")
    case False
    with Cons.prems have "save_loop today ps td w = Inr (td', w')"
      by (simp add: save_loop_skip del: save_loop.simps)
    from Cons.IH[OF this] show ?thesis .
  next
    case True
    with Cons.prems obtain ent where
      "save_loop today ps (AList.update (kanri_no p) ent td) (snd (load_previous_data w))
         = Inr (td', w')"
      by (auto simp: save_loop_step simp del: save_loop.simps load_previous_data.simps
            split: sum.splits)
    from Cons.IH[OF this] show ?thesis
      by (auto simp: load_previous_data_frame simp del: load_previous_data.simps)
         (simp split: ledger_file.splits)
  qed
qed

lemma entries_loop_keys:
  "entries_loop previous today props td = Inr td' \<Longrightarrow>
     set (map fst td') = set (map fst td) \<union> current_ids props"
  by (induction props arbitrary: td)
     (auto simp: current_ids_def tracked_def AList.dom_update split: sum.splits if_splits)

lemma entries_loop_key_order:
  "entries_loop previous today props td = Inr td' \<Longrightarrow>
   entries_loop previous2 today props sd = Inr sd' \<Longrightarrow>
   map fst td = map fst sd \<Longrightarrow> map fst td' = map fst sd'"
proof (induction props arbitrary: td sd)
  case Nil
  then show ?case by simp
next
  case (Cons p ps)
  show ?case
  proof (cases "tracked p")
    case False
    with Cons show ?thesis by simp
  next
    case True
    from True Cons.prems(1) obtain ent where
      a: "entries_loop previous today ps (AList.update (kanri_no p) ent td) = Inr td'"
      by (auto split: sum.splits)
    from True Cons.prems(2) obtain ent2 where
      b: "entries_loop previous2 today ps (AList.update (kanri_no p) ent2 sd) = Inr sd'"
      by (auto split: sum.splits)
    have "fst ` set td = fst ` set sd"
      using Cons.prems(3) by (metis list.set_map)
    then have "map fst (AList.update (kanri_no p) ent td)
        = map fst (AList.update (kanri_no p) ent2 sd)"
      using Cons.prems(3) by (simp add: AList.update_keys)
    from Cons.IH[OF a b this] show ?thesis .
  qed
qed

lemma entries_loop_distinct:
  "entries_loop previous today props td = Inr td' \<Longrightarrow> distinct (map fst td) \<Longrightarrow>
     distinct (map fst td')"
  by (induction props arbitrary: td)
     (auto simp: AList.distinct_update split: sum.splits if_splits)

lemma entries_loop_lookup:
  "entries_loop previous today props td = Inr td' \<Longrightarrow>
     map_of td' k =
       (case last_tracked k props of
          None \<Rightarrow> map_of td k
        | Some q \<Rightarrow>
            (case entry_for previous today q of
               Inr e \<Rightarrow> Some e
             | Inl x \<Rightarrow> None))"
proof (induction props arbitrary: td)
  case Nil
  then show ?case by simp
next
  case (Cons p ps)
  show ?case
  proof (cases "tracked p")
    case False
    with Cons show ?thesis by (auto split: option.splits)
  next
    case True
    from True Cons.prems(1) obtain ent where
      e: "entry_for previous today p = Inr ent"
      and a: "entries_loop previous today ps (AList.update (kanri_no p) ent td) = Inr td'"
      by (auto split: sum.splits)
    from Cons.IH[OF a] e True show ?thesis
      by (auto simp: AList.update_conv' split: option.splits)
  qed
qed

lemma entries_loop_succeeds:
  "(\<And>p. p \<in> set props \<Longrightarrow> tracked p \<Longrightarrow> \<exists>e. entry_for previous today p = Inr e) \<Longrightarrow>
     \<exists>td'. entries_loop previous today props td = Inr td'"
proof (induction props arbitrary: td)
  case Nil
  then show ?case by simp
next
  case (Cons p ps)
  show ?case
  proof (cases "tracked p")
    case False
    with Cons show ?thesis by simp
  next
    case True
    with Cons.prems[of p] obtain e where
      "entry_for previous today p = Inr e" by auto
    with True Cons.IH[of "AList.update (kanri_no p) e td"] Cons.prems show ?thesis
      by simp
  qed
qed

lemma entries_loop_succeeded:
  "entries_loop previous today props td = Inr td' \<Longrightarrow> p \<in> set props \<Longrightarrow> tracked p \<Longrightarrow>
     \<exists>e. entry_for previous today p = Inr e"
  by (induction props arbitrary: td) (auto split: sum.splits if_splits)

lemma last_tracked_Some:
  "last_tracked k ps = Some q \<Longrightarrow> q \<in> set ps \<and> tracked q \<and> kanri_no q = k"
  by (induction ps) (auto split: option.splits if_splits)

lemma last_tracked_exists:
  "p \<in> set ps \<Longrightarrow> tracked p \<Longrightarrow> \<exists>q. last_tracked (kanri_no p) ps = Some q"
  by (induction ps) (auto split: option.splits)

lemma history_today_ends_today:
  "history_today history0 today p \<noteq> [] \<and> date (last (history_today history0 today p)) = today"
  by (auto simp: history_today_def today_point_def)

lemma history_today_stored:
  "hist \<noteq> [] \<Longrightarrow> date (last hist) = today \<Longrightarrow> history_today hist today p = hist"
  by (simp add: history_today_def)

lemma tracker_entry_history:
  "tracker_entry today p hist = Inr e \<Longrightarrow> history e = hist"
  by (auto simp: tracker_entry_def Let_def split: sum.splits)

lemma tracker_entry_succeeds_iff:
  "(\<exists>e. tracker_entry today p hist = Inr e) \<longleftrightarrow> (hist = [] \<or> hp_price (hd hist) \<noteq> None)"
  by (cases hist) (auto simp: tracker_entry_def Let_def split: sum.splits option.splits)

text \<open>What a stored entry is like: its history ends today, and storing it again gives it back.\<close>

lemma entry_for_stored:
  assumes "entry_for previous today q = Inr e"
  shows "history e \<noteq> [] \<and> date (last (history e)) = today
     \<and> tracker_entry today q (history e) = Inr e"
proof -
  from assms obtain history0 where
    t: "tracker_entry today q (history_today history0 today q) = Inr e"
    by (auto simp: entry_for_def split: sum.splits)
  from tracker_entry_history[OF t] have h: "history e = history_today history0 today q" .
  with t history_today_ends_today[of history0 today q] show ?thesis by simp
qed

lemma entry_for_dumped:
  assumes "map_of L (kanri_no p) = Some e" and "history e \<noteq> []"
    and "date (last (history e)) = today"
  shows "entry_for (dumped L) today p = tracker_entry today p (history e)"
  using assms
  by (simp add: entry_for_def dumped_def map_of_map history_today_stored)

lemma alist_eqI:
  "map fst xs = map fst ys \<Longrightarrow> distinct (map fst xs) \<Longrightarrow> map_of xs = map_of ys \<Longrightarrow> xs = ys"
proof (induction xs arbitrary: ys)
  case Nil
  then show ?case by simp
next
  case (Cons x xs)
  then obtain y ys' where ys: "ys = y # ys'" by (cases ys) auto
  obtain k v where x: "x = (k, v)" by (cases x)
  obtain k' v' where y: "y = (k', v')" by (cases y)
  from Cons.prems(1) ys x y have k: "k' = k" and keys: "map fst xs = map fst ys'" by auto
  have eq: "map_of (x # xs) j = map_of ys j" for j
    using Cons.prems(3) by (rule fun_cong)
  from eq[of k] ys x y k have v: "v' = v" by simp
  from Cons.prems(2) x have nk: "k \<notin> fst ` set xs" and d: "distinct (map fst xs)" by auto
  from nk keys have nk': "k \<notin> fst ` set ys'" by (metis list.set_map)
  have "map_of xs j = map_of ys' j" for j
  proof (cases "j = k")
    case True
    from nk nk' have "map_of xs k = None" and "map_of ys' k = None"
      by (simp_all add: map_of_eq_None_iff)
    with True show ?thesis by simp
  next
    case False
    with eq[of j] ys x y k show ?thesis by simp
  qed
  then have "map_of xs = map_of ys'" by (rule ext)
  from Cons.IH[OF keys d this] ys x y k v show ?case by simp
qed

lemma entries_loop_idem:
  assumes first: "entries_loop P today props [] = Inr L1"
  shows "entries_loop (dumped L1) today props [] = Inr L1"
proof -
  have again: "\<exists>q e. last_tracked (kanri_no p) props = Some q
      \<and> entry_for P today q = Inr e
      \<and> entry_for (dumped L1) today p = tracker_entry today p (history e)
      \<and> tracker_entry today q (history e) = Inr e"
    if p: "p \<in> set props" "tracked p" for p
  proof -
    from last_tracked_exists[OF p] obtain q where lt: "last_tracked (kanri_no p) props = Some q"
      by blast
    from last_tracked_Some[OF lt] have q: "q \<in> set props" "tracked q" by simp_all
    from entries_loop_succeeded[OF first q] obtain e where
      te: "entry_for P today q = Inr e" by blast
    from entries_loop_lookup[OF first, of "kanri_no p"] lt te
    have m: "map_of L1 (kanri_no p) = Some e" by simp
    from entry_for_stored[OF te] have s: "history e \<noteq> []" "date (last (history e)) = today"
      "tracker_entry today q (history e) = Inr e" by simp_all
    from entry_for_dumped[OF m s(1,2)] lt te s(3) show ?thesis by blast
  qed
  have ok: "\<exists>e. entry_for (dumped L1) today p = Inr e"
    if p: "p \<in> set props" "tracked p" for p
  proof -
    from again[OF p] obtain q e where
      h: "entry_for (dumped L1) today p = tracker_entry today p (history e)"
      and te: "tracker_entry today q (history e) = Inr e" by blast
    from te have "\<exists>e'. tracker_entry today q (history e) = Inr e'" by blast
    then have "history e = [] \<or> hp_price (hd (history e)) \<noteq> None"
      by (simp only: tracker_entry_succeeds_iff)
    then have "\<exists>e'. tracker_entry today p (history e) = Inr e'"
      by (simp only: tracker_entry_succeeds_iff)
    with h show ?thesis by simp
  qed
  from entries_loop_succeeds[of props "dumped L1" today "[]"] ok obtain L2 where
    second: "entries_loop (dumped L1) today props [] = Inr L2" by blast
  have "map_of L2 k = map_of L1 k" for k
  proof (cases "last_tracked k props")
    case None
    with entries_loop_lookup[OF first, of k] entries_loop_lookup[OF second, of k]
    show ?thesis by simp
  next
    case (Some q)
    from last_tracked_Some[OF Some] have q: "q \<in> set props" "tracked q" "kanri_no q = k"
      by simp_all
    from again[OF q(1,2)] q(3) Some obtain e where
      "entry_for P today q = Inr e" "entry_for (dumped L1) today q = Inr e"
      by auto
    with Some entries_loop_lookup[OF first, of k] entries_loop_lookup[OF second, of k]
    show ?thesis by simp
  qed
  then have m: "map_of L2 = map_of L1" by (rule ext)
  have k: "map fst L2 = map fst L1"
    using entries_loop_key_order[OF second first] by simp
  have d: "distinct (map fst L2)"
    using entries_loop_distinct[OF second] by simp
  from alist_eqI[OF k d m] second show ?thesis by simp
qed

lemma save_current_data_Inr:
  assumes "save_current_data properties today w = Inr w1"
  shows "\<exists>L1 w'. save_loop today properties [] w = Inr (L1, w')
     \<and> entries_loop (fst (load_previous_data w)) today properties [] = Inr L1
     \<and> w1 = w'\<lparr>data_file := Parsed (dumped L1),
               snapshots := AList.update today
                 \<lparr>snap_date = today,
                  snap_properties = filter (\<lambda>p. error p = None) properties\<rparr>
                 (snapshots w')\<rparr>"
proof -
  from assms obtain L1 w' where s: "save_loop today properties [] w = Inr (L1, w')"
    and w1: "w1 = w'\<lparr>data_file := Parsed (dumped L1),
               snapshots := AList.update today
                 \<lparr>snap_date = today,
                  snap_properties = filter (\<lambda>p. error p = None) properties\<rparr>
                 (snapshots w')\<rparr>"
    by (auto simp: save_current_data_def split: sum.splits)
  from save_loop_entries[of today properties "[]" w] s
  have "entries_loop (fst (load_previous_data w)) today properties [] = Inr L1"
    by (simp del: load_previous_data.simps)
  with s w1 show ?thesis by blast
qed

text \<open>
  A listing that has no price when it is first seen makes the commit raise: its first
  history point holds \<^verbatim>\<open>None\<close>, and line 80 subtracts it. Nothing is written then.
\<close>

lemma commit_without_price_raises:
  "save_current_data [test_property\<lparr>price := None\<rparr>] ''2024-01-01'' empty_world = Inl TypeError"
  by (simp add: save_current_data_def empty_world_def test_property_def
          tracker_entry_def history_today_def today_point_def Let_def)

text \<open>
  C2. When a commit of the records \<open>properties\<close> on the day \<open>today\<close> completes and leaves
  the world \<open>w1\<close>, a second commit of the same records on the same day completes too and
  leaves the world exactly as it was: the same ledger file, hence for every entry the same
  history (no second point for today), the same \<^verbatim>\<open>first_seen\<close>, \<^verbatim>\<open>initial_price\<close>,
  \<^verbatim>\<open>max_price\<close>, \<^verbatim>\<open>min_price\<close> and \<^verbatim>\<open>total_change\<close>, and the same snapshots. (A commit that
  raises has written nothing, so two of them leave the ledger as it was as well.)
\<close>

theorem same_day_commit_idempotent:
  assumes "save_current_data properties today w = Inr w1"
  shows "save_current_data properties today w1 = Inr w1"
proof -
  from save_current_data_Inr[OF assms] obtain L1 w' where
    e1: "entries_loop (fst (load_previous_data w)) today properties [] = Inr L1"
    and w1: "w1 = w'\<lparr>data_file := Parsed (dumped L1),
               snapshots := AList.update today
                 \<lparr>snap_date = today,
                  snap_properties = filter (\<lambda>p. error p = None) properties\<rparr>
                 (snapshots w')\<rparr>"
    by blast
  from w1 have df: "data_file w1 = Parsed (dumped L1)" by simp
  then have l: "fst (load_previous_data w1) = dumped L1" by simp
  from entries_loop_idem[OF e1] have e2: "entries_loop (dumped L1) today properties [] = Inr L1" .
  from save_loop_entries[of today properties "[]" w1] l e2
  have "map_sum id fst (save_loop today properties [] w1) = Inr L1"
    by (simp del: load_previous_data.simps)
  then obtain w2 where s2: "save_loop today properties [] w1 = Inr (L1, w2)"
    by (cases "save_loop today properties [] w1") auto
  from save_loop_frame[OF s2] df have "w2 = w1" by blast
  with s2 have "save_current_data properties today w1 =
      Inr (w1\<lparr>data_file := Parsed (dumped L1),
              snapshots := AList.update today
                 \<lparr>snap_date = today,
                  snap_properties = filter (\<lambda>p. error p = None) properties\<rparr>
                 (snapshots w1)\<rparr>)"
    by (simp add: save_current_data_def)
  also have "w1\<lparr>data_file := Parsed (dumped L1),
              snapshots := AList.update today
                 \<lparr>snap_date = today,
                  snap_properties = filter (\<lambda>p. error p = None) properties\<rparr>
                 (snapshots w1)\<rparr> = w1"
    by (simp add: w1)
  finally show ?thesis .
qed

theorem same_day_commit_idempotent_witness:
  "save_current_data [test_property] ''2024-01-01'' empty_world = Inr committed_world
   \<and> save_current_data [test_property] ''2024-01-01'' committed_world = Inr committed_world"
proof -
  have h: "save_current_data [test_property] ''2024-01-01'' empty_world = Inr committed_world"
    by (simp add: save_current_data_def empty_world_def committed_world_def test_property_def
          test_entry_def tracker_entry_def history_today_def today_point_def dumped_def Let_def)
  from same_day_commit_idempotent [OF h] h show ?thesis by simp
qed

text \<open>
  C1, as the code has it. \<^verbatim>\<open>save_current_data\<close> starts from an empty \<^verbatim>\<open>tracker_data\<close> and
  writes it over the ledger file: the ledger that the next run loads has exactly the ids
  of the current records without error and with an id, and an entry whose id is absent
  from them is not in it.
\<close>

theorem commit_keeps_current_ids_only:
  assumes "save_current_data properties today w = Inr w1"
  shows "\<exists>L1. data_file w1 = Parsed (dumped L1)
     \<and> previous_ids (dict_of (dumped L1)) = current_ids properties
     \<and> (\<forall>k. k \<notin> current_ids properties \<longrightarrow> map_of (dict_of (dumped L1)) k = None)"
proof -
  from save_current_data_Inr[OF assms] obtain L1 w' where
    e1: "entries_loop (fst (load_previous_data w)) today properties [] = Inr L1"
    and df: "data_file w1 = Parsed (dumped L1)"
    by auto
  from entries_loop_keys[OF e1] have k: "previous_ids (dict_of (dumped L1)) = current_ids properties"
    by (simp add: previous_ids_def dumped_def comp_def case_prod_unfold)
  then have "\<forall>k. k \<notin> current_ids properties \<longrightarrow> map_of (dict_of (dumped L1)) k = None"
    by (simp add: previous_ids_def map_of_eq_None_iff)
  with df k show ?thesis by blast
qed

theorem commit_keeps_current_ids_only_witness:
  "save_current_data [test_property] ''2024-01-02'' two_world
     = Inr (two_world\<lparr>data_file := Parsed (dumped [(''C13252K32'', later_entry)]),
             snapshots := [(''2024-01-02'',
                \<lparr>snap_date = ''2024-01-02'', snap_properties = [test_property]\<rparr>)]\<rparr>)
   \<and> previous_ids (dict_of (dumped [(''C13252K32'', later_entry)])) = current_ids [test_property]
   \<and> map_of (dict_of (dumped [(''C13252K32'', later_entry)])) ''C48258711'' = None"
proof -
  have h: "save_current_data [test_property] ''2024-01-02'' two_world
     = Inr (two_world\<lparr>data_file := Parsed (dumped [(''C13252K32'', later_entry)]),
             snapshots := [(''2024-01-02'',
                \<lparr>snap_date = ''2024-01-02'', snap_properties = [test_property]\<rparr>)]\<rparr>)"
    by (simp add: save_current_data_def two_world_def empty_world_def two_listings_def
          test_property_def test_entry_def later_entry_def tracker_entry_def history_today_def
          today_point_def dumped_def Let_def)
  from commit_keeps_current_ids_only [OF h] obtain L1 where
    "dumped L1 = dumped [(''C13252K32'', later_entry)]"
    "previous_ids (dict_of (dumped L1)) = current_ids [test_property]"
    "\<forall>k. k \<notin> current_ids [test_property] \<longrightarrow> map_of (dict_of (dumped L1)) k = None"
    by auto
  moreover have "''C48258711'' \<notin> current_ids [test_property]"
    by (simp add: current_ids_def test_property_def)
  ultimately show ?thesis using h by simp
qed

text \<open>
  The claim C1 as it is written fails: a listing of the ledger that the current crawl did
  not find is gone from the ledger after the commit.
\<close>

theorem ended_entry_dropped_counterexample:
  "map_of (dict_of (fst (load_previous_data two_world))) ''C48258711'' = Some (Some test_entry)
   \<and> (case save_current_data [test_property] ''2024-01-02'' two_world of
        Inl e \<Rightarrow> False
      | Inr w1 \<Rightarrow>
          map_of (dict_of (fst (load_previous_data w1))) ''C48258711'' = None
          \<and> map fst (dict_of (fst (load_previous_data w1))) = [''C13252K32''])"
  by (simp add: two_world_def empty_world_def two_listings_def save_current_data_def
        test_property_def test_entry_def tracker_entry_def history_today_def today_point_def
        dumped_def Let_def)

section \<open>Discovery\<close>

lemma related_subset:
  "set (fst (discover_related_properties get u visited))
     \<subseteq> set (fst (discover_related_properties get u {}))"
  by (simp add: discover_related_properties_def Let_def)

lemma discover_step_ok:
  assumes "frontier_ok (reachable get seeds) st" and "fst st \<noteq> []"
  shows "frontier_ok (reachable get seeds) (discover_step get st)"
proof -
  obtain queue visited discovered where st: "st = (queue, visited, discovered)"
    by (cases st)
  with assms(2) obtain q queue' where q: "queue = q # queue'" by (cases queue) auto
  let ?c = "absolute_url q"
  show ?thesis
  proof (cases "extract_property_id ?c = None \<or> ?c \<in> discovered")
    case True
    with assms(1) st q show ?thesis
      by (auto simp: frontier_ok_def discover_step_def Let_def)
  next
    case False
    with assms(1) st q have c: "?c \<in> reachable get seeds"
      by (auto simp: frontier_ok_def)
    obtain related visited' where
      r: "discover_related_properties get ?c visited = (related, visited')"
      by (cases "discover_related_properties get ?c visited")
    have "absolute_url v \<in> reachable get seeds"
      if "v \<in> set related" "extract_property_id (absolute_url v) \<noteq> None" for v
    proof -
      from that(1) r related_subset[of get ?c visited]
      have "v \<in> set (fst (discover_related_properties get ?c {}))" by auto
      from reachable.link[OF c this that(2)] show ?thesis .
    qed
    with False assms(1) st q r c show ?thesis
      by (auto simp: frontier_ok_def discover_step_def Let_def)
  qed
qed

lemma discover_step_decreases:
  assumes "finite R" and "frontier_ok R st" and "fst st \<noteq> []"
  shows "(discover_step get st, st)
     \<in> inv_image (less_than <*lex*> less_than) (\<lambda>st. (card (R - snd (snd st)), length (fst st)))"
proof -
  obtain queue visited discovered where st: "st = (queue, visited, discovered)"
    by (cases st)
  with assms(3) obtain q queue' where q: "queue = q # queue'" by (cases queue) auto
  let ?c = "absolute_url q"
  show ?thesis
  proof (cases "extract_property_id ?c = None \<or> ?c \<in> discovered")
    case True
    with st q show ?thesis
      by (auto simp: discover_step_def Let_def)
  next
    case False
    with assms(2) st q have c: "?c \<in> R - discovered"
      by (auto simp: frontier_ok_def)
    have "R - insert ?c discovered = (R - discovered) - {?c}" by auto
    moreover from assms(1) have "finite (R - discovered)" by simp
    from card_Diff1_less[OF this c]
    have "card ((R - discovered) - {?c}) < card (R - discovered)" .
    ultimately have "card (R - insert ?c discovered) < card (R - discovered)" by simp
    with False st q show ?thesis
      by (auto simp: discover_step_def Let_def split: prod.splits)
  qed
qed

lemma discover_loop_terminates:
  assumes fin: "finite (reachable get seeds)"
  shows "frontier_ok (reachable get seeds) st \<longrightarrow>
     (\<exists>d. discover_loop get st = Some d \<and> d \<subseteq> reachable get seeds)"
proof -
  define r where "r = inv_image (less_than <*lex*> less_than)
       (\<lambda>st :: string list \<times> string set \<times> string set.
          (card (reachable get seeds - snd (snd st)), length (fst st)))"
  have wf: "wf r"
    unfolding r_def by (intro wf_inv_image wf_lex_prod wf_less_than)
  show ?thesis
  proof (rule wf_induct[OF wf])
    fix st
    assume IH: "\<forall>y. (y, st) \<in> r \<longrightarrow> frontier_ok (reachable get seeds) y \<longrightarrow>
        (\<exists>d. discover_loop get y = Some d \<and> d \<subseteq> reachable get seeds)"
    show "frontier_ok (reachable get seeds) st \<longrightarrow>
        (\<exists>d. discover_loop get st = Some d \<and> d \<subseteq> reachable get seeds)"
    proof
      assume ok: "frontier_ok (reachable get seeds) st"
      show "\<exists>d. discover_loop get st = Some d \<and> d \<subseteq> reachable get seeds"
      proof (cases "fst st = []")
        case True
        with ok show ?thesis
          by (subst discover_loop.simps) (simp add: frontier_ok_def)
      next
        case False
        from discover_step_decreases[OF fin ok False]
        have "(discover_step get st, st) \<in> r" by (simp add: r_def)
        with IH discover_step_ok[OF ok False]
        have "\<exists>d. discover_loop get (discover_step get st) = Some d
            \<and> d \<subseteq> reachable get seeds"
          by blast
        with False show ?thesis
          by (subst discover_loop.simps) simp
      qed
    qed
  qed
qed

lemma discover_related_failure:
  assumes "get u = Inl e"
  shows "discover_related_properties (get(u := Inr no_links)) = discover_related_properties get"
proof (intro ext)
  fix x visited
  show "discover_related_properties (get(u := Inr no_links)) x visited
      = discover_related_properties get x visited"
    using assms
    by (simp add: discover_related_properties_def Let_def related_links_def no_links_def)
qed

lemma discover_step_cong:
  assumes "discover_related_properties g' = discover_related_properties g"
  shows "discover_step g' st = discover_step g st"
  by (simp only: discover_step_def assms)

lemma discover_loop_cong_Some:
  assumes "discover_loop g st = Some d" and "\<And>st. discover_step g' st = discover_step g st"
  shows "discover_loop g' st = Some d"
  using assms
proof (induction g st d rule: discover_loop.raw_induct)
  case (1 loop get st d)
  show ?case
  proof (cases "fst st = []")
    case True
    with 1(2) show ?thesis by (subst discover_loop.simps) simp
  next
    case False
    with 1(2) have l: "loop get (discover_step get st) = Some d" by simp
    from 1(3) False have dl: "discover_loop get (discover_step get st) = Some d"
      by (subst (asm) discover_loop.simps) simp
    from 1(1)[OF l dl 1(4)] have "discover_loop g' (discover_step get st) = Some d" .
    with False 1(4)[of st] show ?thesis by (subst discover_loop.simps) simp
  qed
qed (fact assms(1))

lemma discover_loop_cong:
  assumes "\<And>st. discover_step g' st = discover_step g st"
  shows "discover_loop g' st = discover_loop g st"
proof (cases "discover_loop g st")
  case (Some d)
  with discover_loop_cong_Some[OF Some assms] show ?thesis by simp
next
  case None
  show ?thesis
  proof (cases "discover_loop g' st")
    case None': None
    with None show ?thesis by simp
  next
    case (Some d)
    from discover_loop_cong_Some[OF Some assms[symmetric]] None show ?thesis by simp
  qed
qed

lemma absolute_url_idem: "absolute_url (absolute_url u) = absolute_url u"
  by (simp add: absolute_url_def site_def)

lemma scenario_links:
  "fst (discover_related_properties scenario_web ''https://www.livable.co.jp/mansion/CA/'' {})
     = [''https://www.livable.co.jp/mansion/CA/'', ''https://www.livable.co.jp/mansion/CB/'']"
  "fst (discover_related_properties scenario_web ''https://www.livable.co.jp/mansion/CB/'' {})
     = [''https://www.livable.co.jp/mansion/CA/'', ''https://www.livable.co.jp/mansion/CC/'']"
  "fst (discover_related_properties scenario_web ''https://www.livable.co.jp/mansion/CC/'' {})
     = []"
  by code_simp+

lemma scenario_reachable:
  "reachable scenario_web [''https://www.livable.co.jp/mansion/CA/'']
     \<subseteq> {''https://www.livable.co.jp/mansion/CA/'', ''https://www.livable.co.jp/mansion/CB/'',
         ''https://www.livable.co.jp/mansion/CC/''}"
proof
  fix x
  assume "x \<in> reachable scenario_web [''https://www.livable.co.jp/mansion/CA/'']"
  then show "x \<in> {''https://www.livable.co.jp/mansion/CA/'',
      ''https://www.livable.co.jp/mansion/CB/'', ''https://www.livable.co.jp/mansion/CC/''}"
  proof (induction rule: reachable.induct)
    case (seed s)
    then show ?case by (simp add: absolute_url_def)
  next
    case (link u v)
    from link.IH link.hyps(2) have "v \<in> {''https://www.livable.co.jp/mansion/CA/'',
      ''https://www.livable.co.jp/mansion/CB/'', ''https://www.livable.co.jp/mansion/CC/''}"
      by (auto simp: scenario_links)
    then show ?case by (auto simp: absolute_url_def)
  qed
qed

lemma scenario_finite: "finite (reachable scenario_web [''https://www.livable.co.jp/mansion/CA/''])"
  by (rule finite_subset[OF scenario_reachable]) simp

lemma scenario_run:
  "auto_discover_properties scenario_web [''https://www.livable.co.jp/mansion/CA/''] =
     Some [''https://www.livable.co.jp/mansion/CA/'', ''https://www.livable.co.jp/mansion/CB/'',
           ''https://www.livable.co.jp/mansion/CC/'']"
  by code_simp

lemma discover_related_fresh:
  assumes "absolute_url c = c" and "extract_property_id c \<noteq> None" and "c \<notin> visited"
  shows "discover_related_properties get c visited
     = (fst (discover_related_properties get c {}), insert c visited)"
  using assms
  by (cases "extract_property_id c") (simp_all add: discover_related_properties_def Let_def)

lemma discover_step_complete:
  assumes inv: "frontier_complete get seeds st" and ne: "fst st \<noteq> []"
  shows "frontier_complete get seeds (discover_step get st)"
proof -
  obtain queue visited discovered where st: "st = (queue, visited, discovered)"
    by (cases st)
  with ne obtain q queue' where q: "queue = q # queue'" by (cases queue) auto
  let ?c = "absolute_url q"
  from inv have "frontier_complete get seeds (q # queue', visited, discovered)"
    by (simp only: st q)
  then have vis: "visited \<subseteq> discovered"
    and abs: "\<forall>d \<in> discovered. absolute_url d = d"
    and seeds: "\<forall>s \<in> set seeds. extract_property_id (absolute_url s) \<noteq> None \<longrightarrow>
              absolute_url s \<in> discovered \<union> absolute_url ` set (q # queue')"
    and links: "\<forall>u \<in> discovered. \<forall>v \<in> set (fst (discover_related_properties get u {})).
              extract_property_id (absolute_url v) \<noteq> None \<longrightarrow>
              absolute_url v \<in> discovered \<union> absolute_url ` set (q # queue')"
    unfolding frontier_complete_def prod.case by blast+
  show ?thesis
  proof (cases "extract_property_id ?c = None \<or> ?c \<in> discovered")
    case True
    then have step: "discover_step get st = (queue', visited, discovered)"
      using st q by (simp add: discover_step_def Let_def)
    have cover: "x \<in> discovered \<union> absolute_url ` set queue'"
      if "x \<in> discovered \<union> absolute_url ` set (q # queue')"
        and "extract_property_id x \<noteq> None" for x
      using that True by auto
    from vis abs seeds links cover show ?thesis
      unfolding step frontier_complete_def by (simp del: set_simps; blast?)
  next
    case False
    then have idc: "extract_property_id ?c \<noteq> None" and new: "?c \<notin> discovered" by simp_all
    from new vis have nv: "?c \<notin> visited" by auto
    let ?links = "fst (discover_related_properties get ?c {})"
    let ?d' = "insert ?c discovered"
    let ?q' = "queue' @ filter (\<lambda>u. u \<notin> ?d') ?links"
    from discover_related_fresh[OF absolute_url_idem idc nv]
    have step: "discover_step get st = (?q', insert ?c visited, ?d')"
      using st q idc new by (auto simp: discover_step_def Let_def)
    have abs': "\<forall>d \<in> ?d'. absolute_url d = d"
      using abs by (simp add: absolute_url_idem)
    have cover: "x \<in> ?d' \<union> absolute_url ` set ?q'"
      if "x \<in> discovered \<union> absolute_url ` set (q # queue')" for x
      using that by auto
    have newlinks: "absolute_url v \<in> ?d' \<union> absolute_url ` set ?q'"
      if "v \<in> set ?links" for v
    proof (cases "v \<in> ?d'")
      case True
      with abs' have "absolute_url v = v" by blast
      with True show ?thesis by auto
    next
      case False
      with that have "v \<in> set ?q'" by simp
      then show ?thesis by blast
    qed
    have l': "\<forall>u \<in> ?d'. \<forall>v \<in> set (fst (discover_related_properties get u {})).
              extract_property_id (absolute_url v) \<noteq> None \<longrightarrow>
              absolute_url v \<in> ?d' \<union> absolute_url ` set ?q'"
    proof (intro ballI impI)
      fix u v
      assume u: "u \<in> ?d'" and v: "v \<in> set (fst (discover_related_properties get u {}))"
        and i: "extract_property_id (absolute_url v) \<noteq> None"
      show "absolute_url v \<in> ?d' \<union> absolute_url ` set ?q'"
      proof (cases "u = ?c")
        case True
        with v newlinks show ?thesis by blast
      next
        case False
        with u have "u \<in> discovered" by simp
        with links v i have "absolute_url v \<in> discovered \<union> absolute_url ` set (q # queue')"
          by blast
        then show ?thesis by (rule cover)
      qed
    qed
    have s': "\<forall>s \<in> set seeds. extract_property_id (absolute_url s) \<noteq> None \<longrightarrow>
              absolute_url s \<in> ?d' \<union> absolute_url ` set ?q'"
      using seeds cover by blast
    from vis abs' s' l' show ?thesis
      unfolding step frontier_complete_def by (simp del: set_simps set_append; blast?)
  qed
qed

lemma discover_loop_complete:
  assumes "discover_loop get st = Some d" and "frontier_complete get seeds st"
  shows "frontier_complete get seeds ([], d, d)"
  using assms
proof (induction get st d rule: discover_loop.raw_induct)
  case (1 loop get st d)
  show ?case
  proof (cases "fst st = []")
    case True
    with 1(2) have d: "d = snd (snd st)" by simp
    obtain queue visited discovered where st: "st = (queue, visited, discovered)" by (cases st)
    with True d 1(4) show ?thesis by (simp add: frontier_complete_def)
  next
    case False
    with 1(2) have l: "loop get (discover_step get st) = Some d" by simp
    from 1(3) False have dl: "discover_loop get (discover_step get st) = Some d"
      by (subst (asm) discover_loop.simps) simp
    from 1(1)[OF l dl discover_step_complete[OF 1(4) False]] show ?thesis .
  qed
qed (fact assms(1))

lemma reachable_discovered:
  assumes "frontier_complete get seeds ([], d, d)"
  shows "reachable get seeds \<subseteq> d"
proof
  fix x
  assume "x \<in> reachable get seeds"
  then show "x \<in> d"
  proof (induction rule: reachable.induct)
    case (seed s)
    with assms show ?case by (auto simp: frontier_complete_def)
  next
    case (link u v)
    with assms show ?case by (auto simp: frontier_complete_def)
  qed
qed


text \<open>
  C3, as the code has it. When the link graph reachable from the seeds is finite,
  \<^verbatim>\<open>auto_discover_properties\<close> returns, and its list holds every reachable URL exactly
  once, however many pages link to it. The traversal tells listings apart by the URL
  string (\<^verbatim>\<open>current_url in discovered\<close>), so the ids of the list are without repetition
  when no two reachable URLs spell the same id.
\<close>

theorem discovery_terminates:
  assumes "finite (reachable get seeds)"
  shows "\<exists>urls. auto_discover_properties get seeds = Some urls
     \<and> distinct urls \<and> set urls = reachable get seeds
     \<and> (inj_on extract_property_id (reachable get seeds) \<longrightarrow>
          distinct (map extract_property_id urls))"
proof -
  have "frontier_ok (reachable get seeds) (seeds, {}, {})"
    by (auto simp: frontier_ok_def intro: reachable.seed)
  with discover_loop_terminates[OF assms] obtain d where
    d: "discover_loop get (seeds, {}, {}) = Some d" "d \<subseteq> reachable get seeds" by blast
  have "frontier_complete get seeds (seeds, {}, {})"
    by (simp add: frontier_complete_def)
  from reachable_discovered[OF discover_loop_complete[OF d(1) this]] d(2)
  have eq: "d = reachable get seeds" by blast
  with assms have fin: "finite d" by simp
  have "distinct (map extract_property_id (sorted_list_of_set d))"
    if "inj_on extract_property_id (reachable get seeds)"
    using that fin eq by (simp add: distinct_map)
  with d(1) fin eq show ?thesis
    by (simp add: auto_discover_properties_def)
qed

theorem discovery_terminates_witness:
  "finite (reachable scenario_web [''https://www.livable.co.jp/mansion/CA/''])
   \<and> auto_discover_properties scenario_web [''https://www.livable.co.jp/mansion/CA/''] =
       Some [''https://www.livable.co.jp/mansion/CA/'', ''https://www.livable.co.jp/mansion/CB/'',
             ''https://www.livable.co.jp/mansion/CC/'']
   \<and> reachable scenario_web [''https://www.livable.co.jp/mansion/CA/''] =
       {''https://www.livable.co.jp/mansion/CA/'', ''https://www.livable.co.jp/mansion/CB/'',
        ''https://www.livable.co.jp/mansion/CC/''}"
proof -
  from discovery_terminates [OF scenario_finite] obtain urls where
    "auto_discover_properties scenario_web [''https://www.livable.co.jp/mansion/CA/''] = Some urls"
    "set urls = reachable scenario_web [''https://www.livable.co.jp/mansion/CA/'']"
    by blast
  with scenario_run scenario_finite show ?thesis by auto
qed

text \<open>
  The claim C3 as it is written fails: one listing that a page links to under two
  spellings is discovered twice.
\<close>

theorem url_spellings_counterexample:
  "auto_discover_properties spellings_web [''https://www.livable.co.jp/mansion/CA/''] =
     Some [''https://www.livable.co.jp/mansion/CA/'', ''https://www.livable.co.jp/mansion/CB/'',
           ''https://www.livable.co.jp/mansion/CB/?from=related'']
   \<and> extract_property_id ''https://www.livable.co.jp/mansion/CB/'' = Some ''CB''
   \<and> extract_property_id ''https://www.livable.co.jp/mansion/CB/?from=related'' = Some ''CB''"
  by code_simp

text \<open>
  C9. When the request for a page raises, \<^verbatim>\<open>discover_related_properties\<close> returns the
  empty list (it is a total function to lists: nothing is raised to the caller), and the
  traversal goes on exactly as if that page had no links: its result is the same as on
  the web where only that page is replaced by an empty one.
\<close>

theorem related_links_failure_is_contained:
  "(get (absolute_url u) = Inl e \<longrightarrow> fst (discover_related_properties get u visited) = [])
   \<and> (get u = Inl e \<longrightarrow>
        discover_loop get st = discover_loop (get(u := Inr no_links)) st
        \<and> auto_discover_properties get seeds
            = auto_discover_properties (get(u := Inr no_links)) seeds)"
proof -
  have a: "fst (discover_related_properties get u visited) = []"
    if "get (absolute_url u) = Inl e"
    using that by (simp add: discover_related_properties_def Let_def)
  have b: "discover_loop (get(u := Inr no_links)) st = discover_loop get st"
    if "get u = Inl e" for st
    by (rule discover_loop_cong) (rule discover_step_cong, rule discover_related_failure, rule that)
  from a b show ?thesis by (simp add: auto_discover_properties_def)
qed

theorem related_links_failure_is_contained_witness:
  "scenario_web (absolute_url ''https://www.livable.co.jp/mansion/CX/'') = Inl ''404 Client Error''
   \<and> fst (discover_related_properties scenario_web ''https://www.livable.co.jp/mansion/CX/'' {}) = []
   \<and> auto_discover_properties scenario_web
        [''https://www.livable.co.jp/mansion/CX/'', ''https://www.livable.co.jp/mansion/CA/'']
       = auto_discover_properties
           (scenario_web(''https://www.livable.co.jp/mansion/CX/'' := Inr no_links))
           [''https://www.livable.co.jp/mansion/CX/'', ''https://www.livable.co.jp/mansion/CA/'']
   \<and> auto_discover_properties scenario_web
        [''https://www.livable.co.jp/mansion/CX/'', ''https://www.livable.co.jp/mansion/CA/'']
       = Some [''https://www.livable.co.jp/mansion/CA/'', ''https://www.livable.co.jp/mansion/CB/'',
               ''https://www.livable.co.jp/mansion/CC/'', ''https://www.livable.co.jp/mansion/CX/'']"
proof -
  have a: "absolute_url ''https://www.livable.co.jp/mansion/CX/''
      = ''https://www.livable.co.jp/mansion/CX/''"
    by (simp add: absolute_url_def)
  have h: "scenario_web ''https://www.livable.co.jp/mansion/CX/'' = Inl ''404 Client Error''"
    by (simp add: scenario_web_def)
  have r: "auto_discover_properties scenario_web
        [''https://www.livable.co.jp/mansion/CX/'', ''https://www.livable.co.jp/mansion/CA/'']
       = Some [''https://www.livable.co.jp/mansion/CA/'', ''https://www.livable.co.jp/mansion/CB/'',
               ''https://www.livable.co.jp/mansion/CC/'', ''https://www.livable.co.jp/mansion/CX/'']"
    by code_simp
  from related_links_failure_is_contained
    [of scenario_web "''https://www.livable.co.jp/mansion/CX/''" "''404 Client Error''" "{}"
      "([], {}, {})"
      "[''https://www.livable.co.jp/mansion/CX/'', ''https://www.livable.co.jp/mansion/CA/'']"]
    a h r
  show ?thesis by simp
qed

end

